theory Spec2Isabelle
  imports Main "HOL-Library.AList" "HOL-Library.Sublist"
begin

section \<open>The code database (FTDB) as the passes read it\<close>

text \<open>
  The passes of syzdescriptor read a code database through dictionary-like entries.
  Every entry is a record here; ids, indices and sizes are natural numbers, names and
  class tags are strings, as in the database. A Python exception is a value of
  \<open>error\<close>; a call that may raise returns \<open>'a res\<close>, and a call that may also loop
  forever returns \<open>'a res option\<close>, where \<open>None\<close> stands for not returning.
\<close>

datatype error =
    AttributeError
  | FtdbError
  | IndexError
  | ZeroDivisionError
  | AssertionError
  | FileExistsError

datatype 'a res = Return 'a | Raise error

record ftdb_type =
  t_id :: nat
  t_str :: string
  t_class :: string
  t_size :: nat
  t_refs :: "nat list"
  t_refnames :: "string list"
  t_values :: "int list"
  t_union :: bool

record sw_case =
  case_value :: int
  case_label :: string
  case_expanded :: string

record switch_info =
  sw_condition :: string
  sw_cases :: "sw_case list"

record callref =
  cr_type :: string
  cr_id :: nat
  cr_pos :: nat

record offsetref =
  or_kind :: string
  or_id :: nat

record deref =
  d_kind :: string
  d_offsetrefs :: "offsetref list"
  d_type :: "nat list"
  d_member :: "nat list"

record ftdb_func =
  f_id :: nat
  f_name :: string
  f_locals :: "string list"
  f_switches :: "switch_info list"
  f_callrefs :: "callref list list"
  f_calls :: "nat list"
  f_call_info :: "nat list list"
  f_derefs :: "deref list"

record fops_var =
  v_type :: nat
  v_members :: "(nat \<times> nat list) list"
  v_kind :: string
  v_var :: nat

record ftdb =
  types :: "ftdb_type list"
  funcs :: "ftdb_func list"
  fops_instances :: "fops_var list"

text \<open>\<open>ftdb['types'].entry_by_id\<close> and \<open>ftdb['funcs'].entry_by_id\<close>: the entry with this
  id, an exception when there is none.\<close>

definition types_entry_by_id :: "ftdb \<Rightarrow> nat \<Rightarrow> ftdb_type res" where
  "types_entry_by_id db i =
     (case find (\<lambda>t. t_id t = i) (types db) of
        None \<Rightarrow> Raise FtdbError
      | Some t \<Rightarrow> Return t)"

definition funcs_entry_by_id :: "ftdb \<Rightarrow> nat \<Rightarrow> ftdb_func res" where
  "funcs_entry_by_id db i =
     (case find (\<lambda>f. f_id f = i) (funcs db) of
        None \<Rightarrow> Raise FtdbError
      | Some f \<Rightarrow> Return f)"

definition funcs_entry_by_name :: "ftdb \<Rightarrow> string \<Rightarrow> ftdb_func list" where
  "funcs_entry_by_name db n = filter (\<lambda>f. f_name f = n) (funcs db)"

section \<open>FopsCollector\<close>

record FopsCollector =
  c_types :: "(string \<times> ftdb_type list) list"
  c_fields :: "(nat \<times> string list) list"
  c_vars :: "fops_var list"

definition FILE_OPERATIONS :: "string list" where
  "FILE_OPERATIONS = [''file_operations'', ''proc_ops'', ''uart_ops'']"

definition get_fops_types :: "ftdb \<Rightarrow> ftdb_type list res" where
  "get_fops_types db =
     (let fops_types = filter (\<lambda>x. t_str x \<in> set FILE_OPERATIONS
                                    \<and> t_class x \<noteq> ''record_forward'') (types db)
      in if length fops_types = 0 then Raise AttributeError else Return fops_types)"

text \<open>The first loop of the constructor: group the entries by name, in a dictionary
  that keeps insertion order.\<close>

definition index_fops_type ::
  "ftdb_type \<Rightarrow> (string \<times> ftdb_type list) list \<Rightarrow> (string \<times> ftdb_type list) list" where
  "index_fops_type typ d =
     (case map_of d (t_str typ) of
        Some v \<Rightarrow> if v \<noteq> [] then AList.update (t_str typ) (v @ [typ]) d
                  else AList.update (t_str typ) [typ] d
      | None \<Rightarrow> AList.update (t_str typ) [typ] d)"

definition get_fops_vars :: "ftdb \<Rightarrow> (string \<times> ftdb_type list) list \<Rightarrow> fops_var list" where
  "get_fops_vars db tys =
     (let fops_ids = concat (map (\<lambda>(_, v). map t_id v) tys)
      in filter (\<lambda>x. v_type x \<in> set fops_ids) (fops_instances db))"

definition FopsCollector_init :: "ftdb \<Rightarrow> FopsCollector res" where
  "FopsCollector_init db =
     (case get_fops_types db of
        Raise e \<Rightarrow> Raise e
      | Return fops_types \<Rightarrow>
          (let tys = fold index_fops_type fops_types [];
               flds = fold (\<lambda>typ f. AList.update (t_id typ) (t_refnames typ) f)
                           (concat (map snd tys)) []
           in Return \<lparr> c_types = tys, c_fields = flds, c_vars = get_fops_vars db tys \<rparr>))"


section \<open>Python sets, dictionaries and the environment\<close>

text \<open>
  A Python set is a list without duplicates that holds the elements in the order in
  which the set is iterated. That order is decided by the hash table, not by the
  program: where the program builds a set and stores it, the model asks the environment
  for the iteration order of the set filled in that way. A dictionary is an association
  list in insertion order. The regular-expression search of the standard library, the
  date and the joining of paths also come from the environment, and so does
  \<open>int(a / b)\<close> where the floating-point quotient need not be the exact one.
\<close>

type_synonym command = "string \<times> int \<times> nat"

record MemberBounds =
  mb_type_id :: nat
  binding_member :: nat
  bound_member :: nat

record PointerCycle =
  cycled_id :: nat
  member_position :: nat

record py_env =
  re_search_sizeof :: "string \<Rightarrow> string option"
  order_commands :: "command list \<Rightarrow> command list"
  order_ids :: "nat list \<Rightarrow> nat list"
  order_named :: "(nat \<times> string) list \<Rightarrow> (nat \<times> string) list"
  order_bounds :: "MemberBounds list \<Rightarrow> MemberBounds list"
  today :: string
  path_join :: "string \<Rightarrow> string \<Rightarrow> string"
  float_quotient :: "nat \<Rightarrow> nat \<Rightarrow> nat"

text \<open>
  \<open>int(a / b)\<close> for natural numbers and \<open>b\<close> not zero. The division is the
  floating-point one. Below \<open>2 ^ 53\<close> both operands are doubles, the quotient is
  rounded correctly and its integer part is the exact quotient; for larger operands
  the result is the environment's.
\<close>

definition int_truediv :: "py_env \<Rightarrow> nat \<Rightarrow> nat \<Rightarrow> nat" where
  "int_truediv env a b =
     (if a < 2 ^ 53 \<and> b < 2 ^ 53 then a div b else float_quotient env a b)"

definition set_order :: "('a list \<Rightarrow> 'a list) \<Rightarrow> bool" where
  "set_order f \<longleftrightarrow> (\<forall>xs. set (f xs) = set xs \<and> distinct (f xs))"

definition pyset_add :: "'a list \<Rightarrow> 'a \<Rightarrow> 'a list" where
  "pyset_add xs x = (if x \<in> set xs then xs else xs @ [x])"

definition pyset_union :: "'a list \<Rightarrow> 'a list \<Rightarrow> 'a list" where
  "pyset_union xs ys = fold (\<lambda>y acc. pyset_add acc y) ys xs"

text \<open>\<open>{**a, **b}\<close>: the entries of \<open>a\<close>, each key of \<open>b\<close> replacing or extending them.\<close>

definition dict_merge :: "('k \<times> 'v) list \<Rightarrow> ('k \<times> 'v) list \<Rightarrow> ('k \<times> 'v) list" where
  "dict_merge a b = fold (\<lambda>(k, v) d. AList.update k v d) b a"

section \<open>The handler record\<close>

text \<open>The attributes of a \<open>Fops\<close> object that the passes fill are absent until then.\<close>

record Fops =
  name :: string
  syscall_id :: nat
  commands :: "command list option"
  deps :: "nat list option"
  pointer_cycles :: "(nat \<times> PointerCycle list) list option"
  pointer_bounds :: "(nat \<times> MemberBounds list) list option"

definition Fops_init :: "string \<Rightarrow> nat \<Rightarrow> Fops" where
  "Fops_init n sid = \<lparr> name = n, syscall_id = sid, commands = None, deps = None,
                       pointer_cycles = None, pointer_bounds = None \<rparr>"

section \<open>IoctlAnalysisPass\<close>

definition IOCTL_COMMAND_ARG :: "string \<times> nat" where
  "IOCTL_COMMAND_ARG = (''parm'', 1)"

definition IOCTL_ARGUMENT_ARG :: "string \<times> nat" where
  "IOCTL_ARGUMENT_ARG = (''parm'', 2)"

definition FORWARD_DECLARED_TYPES :: "string list" where
  "FORWARD_DECLARED_TYPES = [''record_forward'', ''enum_forward'']"

definition pick_switchcases_by_argument_name ::
  "ftdb \<Rightarrow> nat \<Rightarrow> string \<Rightarrow> switch_info list res" where
  "pick_switchcases_by_argument_name db fid condition =
     (case funcs_entry_by_id db fid of
        Raise e \<Rightarrow> Raise e
      | Return function \<Rightarrow>
          Return (filter (\<lambda>switch. sw_condition switch = condition) (f_switches function)))"

text \<open>\<open>list.index\<close>, used where the element is known to be in the list.\<close>

definition py_index :: "'a list \<Rightarrow> 'a \<Rightarrow> nat" where
  "py_index xs x = length (takeWhile (\<lambda>y. y \<noteq> x) xs)"

fun forwarded_loop :: "ftdb_func \<Rightarrow> nat list \<Rightarrow> (nat \<times> nat) list \<Rightarrow> (nat \<times> nat) list res" where
  "forwarded_loop function [] candidates = Return candidates"
| "forwarded_loop function (i # rest) candidates =
     (let callref = f_callrefs function ! i;
          typeparams = map (\<lambda>ref. (cr_type ref, cr_id ref)) callref;
          typepos = map cr_pos callref
      in if IOCTL_COMMAND_ARG \<in> set typeparams \<and> IOCTL_ARGUMENT_ARG \<in> set typeparams
         then (if i < length (f_calls function)
               then forwarded_loop function rest
                      (candidates @ [(f_calls function ! i,
                                      typepos ! py_index typeparams IOCTL_COMMAND_ARG)])
               else Raise IndexError)
         else forwarded_loop function rest candidates)"

definition get_forwarded_ioctls :: "ftdb \<Rightarrow> nat \<Rightarrow> (nat \<times> nat) list res" where
  "get_forwarded_ioctls db fid =
     (case funcs_entry_by_id db fid of
        Raise e \<Rightarrow> Raise e
      | Return function \<Rightarrow>
          forwarded_loop function [0 ..< length (f_callrefs function)] [])"

text \<open>\<open>functions.extend(...)\<close> over the results of the recursive calls, in order; the
  first exception ends the loop.\<close>

fun extend_all :: "'a list \<Rightarrow> 'a list res list \<Rightarrow> 'a list res" where
  "extend_all acc [] = Return acc"
| "extend_all acc (Raise e # rs) = Raise e"
| "extend_all acc (Return xs # rs) = extend_all (acc @ xs) rs"

function recursively_pick_ioctl_with_switchcase ::
  "ftdb \<Rightarrow> nat \<Rightarrow> nat \<Rightarrow> nat \<Rightarrow> nat \<Rightarrow> (nat \<times> nat) list res" where
  "recursively_pick_ioctl_with_switchcase db fid argument_id depth max_depth =
     (if depth > max_depth then Return []
      else case funcs_entry_by_id db fid of
        Raise _ \<Rightarrow> Return []
      | Return function \<Rightarrow>
          if \<not> argument_id < length (f_locals function) then Return []
          else
            (case pick_switchcases_by_argument_name db fid (f_locals function ! argument_id) of
               Raise e \<Rightarrow> Raise e
             | Return targeted_switch \<Rightarrow>
                 (case get_forwarded_ioctls db fid of
                    Raise e \<Rightarrow> Raise e
                  | Return candidates \<Rightarrow>
                      extend_all (if targeted_switch \<noteq> [] then [(fid, argument_id)] else [])
                        (map (\<lambda>c. recursively_pick_ioctl_with_switchcase db (fst c) (snd c)
                                     (depth + 1) max_depth)
                             candidates))))"
  by pat_completeness auto
termination
  by (relation "measure (\<lambda>(db, fid, argument_id, depth, max_depth). max_depth + 1 - depth)") auto

declare recursively_pick_ioctl_with_switchcase.simps [simp del]

text \<open>\<open>str.split(sep)\<close> for a separator that is not empty.\<close>

function py_split :: "string \<Rightarrow> string \<Rightarrow> string list" where
  "py_split sep s =
     (if s = [] then [[]]
      else if sep \<noteq> [] \<and> prefix sep s then [] # py_split sep (drop (length sep) s)
      else (case py_split sep (tl s) of
              w # ws \<Rightarrow> (hd s # w) # ws
            | [] \<Rightarrow> [[hd s]]))"
  by pat_completeness auto
termination
  by (relation "measure (\<lambda>(sep, s). length s)") (auto simp: neq_Nil_conv)

declare py_split.simps [simp del]

definition strip_suffix_star :: "string \<Rightarrow> string \<Rightarrow> string" where
  "strip_suffix_star type_name n =
     (if suffix '' *'' type_name then hd (py_split '' *'' n) else n)"

definition strip_type :: "string \<Rightarrow> string \<times> string" where
  "strip_type type_name =
     (if prefix ''struct '' type_name then
        (strip_suffix_star type_name (last (py_split ''struct '' type_name)), ''record'')
      else if prefix ''union '' type_name then
        (strip_suffix_star type_name (last (py_split ''union '' type_name)), ''record'')
      else if prefix ''enum '' type_name then
        (strip_suffix_star type_name (last (py_split ''enum '' type_name)), ''enum'')
      else if suffix '' *'' type_name then
        (hd (py_split '' *'' type_name), ''pointer'')
      else if suffix '' ['' type_name then
        (let n = hd (py_split '' ['' type_name);
             rest = last (py_split '' ['' type_name)
         in if prefix '']'' rest \<or> prefix ''0]'' rest
            then (n, ''incomplete_array'') else (n, ''const_array''))
      else (type_name, ''builtin''))"

definition get_ftdb_type_id_from_string :: "ftdb \<Rightarrow> string \<Rightarrow> nat option" where
  "get_ftdb_type_id_from_string db type_name =
     (let identifier = fst (strip_type type_name);
          found_types = filter (\<lambda>x. t_str x = identifier) (types db)
      in case filter (\<lambda>x. t_class x \<notin> set FORWARD_DECLARED_TYPES) found_types of
           [] \<Rightarrow> None
         | guessed_type # _ \<Rightarrow> Some (t_id guessed_type))"

text \<open>The loop over the cases of the picked switches. A type id that Python takes for
  false (none found, or the id 0) skips the case.\<close>

fun harvest_cases :: "py_env \<Rightarrow> ftdb \<Rightarrow> sw_case list \<Rightarrow> command list \<Rightarrow> command list" where
  "harvest_cases env db [] cases = cases"
| "harvest_cases env db (c # cs) cases =
     (case re_search_sizeof env (case_expanded c) of
        None \<Rightarrow> harvest_cases env db cs cases
      | Some type_name \<Rightarrow>
          (case get_ftdb_type_id_from_string db type_name of
             None \<Rightarrow> harvest_cases env db cs cases
           | Some type_id \<Rightarrow>
               if type_id = 0 then harvest_cases env db cs cases
               else harvest_cases env db cs
                      (pyset_add cases (case_label c, case_value c, type_id))))"

fun switch_cases_loop ::
  "py_env \<Rightarrow> ftdb \<Rightarrow> (nat \<times> nat) list \<Rightarrow> command list \<Rightarrow> command list res" where
  "switch_cases_loop env db [] cases = Return cases"
| "switch_cases_loop env db ((function_id, argument_id) # rest) cases =
     (case funcs_entry_by_id db function_id of
        Raise e \<Rightarrow> Raise e
      | Return function \<Rightarrow>
          if \<not> argument_id < length (f_locals function) then Raise IndexError
          else
            (case pick_switchcases_by_argument_name db (f_id function)
                    (f_locals function ! argument_id) of
               Raise e \<Rightarrow> Raise e
             | Return switches \<Rightarrow>
                 if switches = [] then Return cases
                 else switch_cases_loop env db rest
                        (harvest_cases env db (concat (map sw_cases switches)) cases)))"

definition analyze_switch_cases :: "py_env \<Rightarrow> ftdb \<Rightarrow> nat \<Rightarrow> command list res" where
  "analyze_switch_cases env db fid =
     (case recursively_pick_ioctl_with_switchcase db fid 1 1 3 of
        Raise e \<Rightarrow> Raise e
      | Return functions \<Rightarrow>
          if functions = [] then Return []
          else switch_cases_loop env db functions [])"

definition analyze_ifs :: "nat \<Rightarrow> command list" where
  "analyze_ifs fid = []"

definition analyze_ioctl_commands :: "py_env \<Rightarrow> ftdb \<Rightarrow> nat \<Rightarrow> command list res" where
  "analyze_ioctl_commands env db fid =
     (case analyze_switch_cases env db fid of
        Raise e \<Rightarrow> Raise e
      | Return cases \<Rightarrow> Return (order_commands env (pyset_union cases (analyze_ifs fid))))"

definition IoctlAnalysisPass_process :: "py_env \<Rightarrow> ftdb \<Rightarrow> Fops \<Rightarrow> (Fops \<times> bool) res" where
  "IoctlAnalysisPass_process env db fops =
     (case analyze_ioctl_commands env db (syscall_id fops) of
        Raise e \<Rightarrow> Raise e
      | Return cmds \<Rightarrow> Return (fops \<lparr> commands := Some cmds \<rparr>, length cmds > 0))"

section \<open>TypeAnalysisPass\<close>

text \<open>The \<open>while\<close> loops that follow \<open>refs[0]\<close> do not return on a chain of typedefs or
  pointers that leads back into itself.\<close>

partial_function (option) detypedef_loop :: "ftdb \<Rightarrow> ftdb_type \<Rightarrow> ftdb_type res option" where
  "detypedef_loop db db_type =
     (if t_class db_type = ''typedef'' then
        (if t_refs db_type = [] then Some (Raise IndexError)
         else (case types_entry_by_id db (hd (t_refs db_type)) of
                 Raise e \<Rightarrow> Some (Raise e)
               | Return t \<Rightarrow> detypedef_loop db t))
      else Some (Return db_type))"

declare detypedef_loop.simps [code]

definition detypedef :: "ftdb \<Rightarrow> nat \<Rightarrow> nat res option" where
  "detypedef db type_id =
     (case types_entry_by_id db type_id of
        Raise e \<Rightarrow> Some (Raise e)
      | Return db_type \<Rightarrow>
          (case detypedef_loop db db_type of
             None \<Rightarrow> None
           | Some (Raise e) \<Rightarrow> Some (Raise e)
           | Some (Return t) \<Rightarrow> Some (Return (t_id t))))"

partial_function (option) dereference_loop :: "ftdb \<Rightarrow> ftdb_type \<Rightarrow> ftdb_type res option" where
  "dereference_loop db db_type =
     (if t_class db_type \<in> set [''pointer'', ''typedef''] then
        (if t_refs db_type = [] then Some (Raise IndexError)
         else (case types_entry_by_id db (hd (t_refs db_type)) of
                 Raise e \<Rightarrow> Some (Raise e)
               | Return t \<Rightarrow> dereference_loop db t))
      else Some (Return db_type))"

declare dereference_loop.simps [code]

definition dereference :: "ftdb \<Rightarrow> nat \<Rightarrow> nat res option" where
  "dereference db type_id =
     (case types_entry_by_id db type_id of
        Raise e \<Rightarrow> Some (Raise e)
      | Return db_type \<Rightarrow>
          (case dereference_loop db db_type of
             None \<Rightarrow> None
           | Some (Raise e) \<Rightarrow> Some (Raise e)
           | Some (Return t) \<Rightarrow> Some (Return (t_id t))))"

text \<open>
  The recursive search threads the set \<open>found\<close>, which the source mutates. The first
  argument bounds the depth of the recursion: \<open>None\<close> is the answer when the bound is
  reached, or when \<open>detypedef\<close> does not return.
\<close>

fun find_unique_type_dependencies_rec ::
      "nat \<Rightarrow> ftdb \<Rightarrow> nat \<Rightarrow> nat list \<Rightarrow> nat list res option"
  and find_unique_type_dependencies_refs ::
      "nat \<Rightarrow> ftdb \<Rightarrow> nat list \<Rightarrow> nat list \<Rightarrow> nat list res option" where
  "find_unique_type_dependencies_rec 0 db type_id found = None"
| "find_unique_type_dependencies_rec (Suc n) db type_id found =
     (if type_id \<in> set found then Some (Return found)
      else case types_entry_by_id db type_id of
        Raise e \<Rightarrow> Some (Raise e)
      | Return db_type \<Rightarrow>
          if t_class db_type = ''enum'' then Some (Return (pyset_add found type_id))
          else find_unique_type_dependencies_refs n db (t_refs db_type)
                 (pyset_add found type_id))"
| "find_unique_type_dependencies_refs n db [] found = Some (Return found)"
| "find_unique_type_dependencies_refs n db (ref # refs) found =
     (case detypedef db ref of
        None \<Rightarrow> None
      | Some (Raise e) \<Rightarrow> Some (Raise e)
      | Some (Return t) \<Rightarrow>
          (case find_unique_type_dependencies_rec n db t found of
             None \<Rightarrow> None
           | Some (Raise e) \<Rightarrow> Some (Raise e)
           | Some (Return found') \<Rightarrow> find_unique_type_dependencies_refs n db refs found'))"

definition find_unique_type_dependencies :: "nat \<Rightarrow> ftdb \<Rightarrow> nat \<Rightarrow> nat list res option" where
  "find_unique_type_dependencies n db type_id =
     (case detypedef db type_id of
        None \<Rightarrow> None
      | Some (Raise e) \<Rightarrow> Some (Raise e)
      | Some (Return t) \<Rightarrow> find_unique_type_dependencies_rec n db t [])"

definition contains_fields :: "ftdb \<Rightarrow> nat \<Rightarrow> bool res option" where
  "contains_fields db type_id =
     (case detypedef db type_id of
        None \<Rightarrow> None
      | Some (Raise e) \<Rightarrow> Some (Raise e)
      | Some (Return t) \<Rightarrow>
          (case types_entry_by_id db t of
             Raise e \<Rightarrow> Some (Raise e)
           | Return db_type \<Rightarrow> Some (Return (length (t_refs db_type) > 0))))"

text \<open>The list comprehension of \<open>process\<close>: the dependencies of every command root, one
  after the other.\<close>

fun all_type_dependencies ::
  "nat \<Rightarrow> py_env \<Rightarrow> ftdb \<Rightarrow> command list \<Rightarrow> nat list res option" where
  "all_type_dependencies n env db [] = Some (Return [])"
| "all_type_dependencies n env db ((_, _, type_id) # cmds) =
     (case find_unique_type_dependencies n db type_id of
        None \<Rightarrow> None
      | Some (Raise e) \<Rightarrow> Some (Raise e)
      | Some (Return found) \<Rightarrow>
          (case all_type_dependencies n env db cmds of
             None \<Rightarrow> None
           | Some (Raise e) \<Rightarrow> Some (Raise e)
           | Some (Return xs) \<Rightarrow> Some (Return (order_ids env found @ xs))))"

fun filter_contains_fields :: "ftdb \<Rightarrow> nat list \<Rightarrow> nat list res option" where
  "filter_contains_fields db [] = Some (Return [])"
| "filter_contains_fields db (x # xs) =
     (case contains_fields db x of
        None \<Rightarrow> None
      | Some (Raise e) \<Rightarrow> Some (Raise e)
      | Some (Return b) \<Rightarrow>
          (case filter_contains_fields db xs of
             None \<Rightarrow> None
           | Some (Raise e) \<Rightarrow> Some (Raise e)
           | Some (Return ys) \<Rightarrow> Some (Return (if b then x # ys else ys))))"

definition TypeAnalysisPass_process ::
  "nat \<Rightarrow> py_env \<Rightarrow> ftdb \<Rightarrow> Fops \<Rightarrow> (Fops \<times> bool) res option" where
  "TypeAnalysisPass_process n env db fop =
     (case commands fop of
        None \<Rightarrow> Some (Raise AttributeError)
      | Some cmds \<Rightarrow>
          (case all_type_dependencies n env db cmds of
             None \<Rightarrow> None
           | Some (Raise e) \<Rightarrow> Some (Raise e)
           | Some (Return xs) \<Rightarrow>
               (case filter_contains_fields db xs of
                  None \<Rightarrow> None
                | Some (Raise e) \<Rightarrow> Some (Raise e)
                | Some (Return ys) \<Rightarrow>
                    (let d = order_ids env (pyset_union [] ys)
                     in Some (Return (fop \<lparr> deps := Some d \<rparr>, length d > 0))))))"

section \<open>PointerCyclesPass\<close>

definition add_cycle ::
  "(nat \<times> PointerCycle list) list \<Rightarrow> nat \<Rightarrow> PointerCycle \<Rightarrow> (nat \<times> PointerCycle list) list" where
  "add_cycle cycles type_id pc =
     (case map_of cycles type_id of
        Some fs \<Rightarrow> if fs \<noteq> [] then AList.update type_id (fs @ [pc]) cycles
                       else AList.update type_id [pc] cycles
      | None \<Rightarrow> AList.update type_id [pc] cycles)"

text \<open>The first loop of \<open>__analyze_pointer_cycles\<close>, over the indices of \<open>refs\<close>. It
  runs before the current type is added to \<open>traversed\<close>.\<close>

fun record_pointer_cycles ::
  "ftdb \<Rightarrow> nat \<Rightarrow> nat list \<Rightarrow> nat list \<Rightarrow> nat list \<Rightarrow> (nat \<times> PointerCycle list) list
   \<Rightarrow> (nat \<times> PointerCycle list) list res option" where
  "record_pointer_cycles db type_id traversed refs [] cycles = Some (Return cycles)"
| "record_pointer_cycles db type_id traversed refs (i # rest) cycles =
     (case types_entry_by_id db (refs ! i) of
        Raise e \<Rightarrow> Some (Raise e)
      | Return ref_type \<Rightarrow>
          if t_class ref_type \<noteq> ''pointer''
          then record_pointer_cycles db type_id traversed refs rest cycles
          else (case dereference db (refs ! i) of
                  None \<Rightarrow> None
                | Some (Raise e) \<Rightarrow> Some (Raise e)
                | Some (Return derefed) \<Rightarrow>
                    if derefed \<in> set traversed
                    then record_pointer_cycles db type_id traversed refs rest
                           (add_cycle cycles type_id
                              \<lparr> cycled_id = derefed, member_position = i \<rparr>)
                    else record_pointer_cycles db type_id traversed refs rest cycles))"

fun analyze_pointer_cycles_rec ::
      "nat \<Rightarrow> ftdb \<Rightarrow> nat \<Rightarrow> nat list
       \<Rightarrow> ((nat \<times> PointerCycle list) list \<times> nat list) res option"
  and analyze_pointer_cycles_refs ::
      "nat \<Rightarrow> ftdb \<Rightarrow> nat list \<Rightarrow> (nat \<times> PointerCycle list) list \<Rightarrow> nat list
       \<Rightarrow> ((nat \<times> PointerCycle list) list \<times> nat list) res option" where
  "analyze_pointer_cycles_rec 0 db type_id traversed = None"
| "analyze_pointer_cycles_rec (Suc n) db type_id traversed =
     (if type_id \<in> set traversed then Some (Return ([], traversed))
      else case types_entry_by_id db type_id of
        Raise e \<Rightarrow> Some (Raise e)
      | Return db_type \<Rightarrow>
          if t_class db_type \<noteq> ''record'' then Some (Return ([], traversed))
          else (case record_pointer_cycles db type_id traversed (t_refs db_type)
                       [0 ..< length (t_refs db_type)] [] of
                  None \<Rightarrow> None
                | Some (Raise e) \<Rightarrow> Some (Raise e)
                | Some (Return cycles) \<Rightarrow>
                    analyze_pointer_cycles_refs n db (t_refs db_type) cycles
                      (pyset_add traversed type_id)))"
| "analyze_pointer_cycles_refs n db [] cycles traversed = Some (Return (cycles, traversed))"
| "analyze_pointer_cycles_refs n db (ref # refs) cycles traversed =
     (if ref \<in> set traversed then analyze_pointer_cycles_refs n db refs cycles traversed
      else case dereference db ref of
        None \<Rightarrow> None
      | Some (Raise e) \<Rightarrow> Some (Raise e)
      | Some (Return t) \<Rightarrow>
          (case analyze_pointer_cycles_rec n db t traversed of
             None \<Rightarrow> None
           | Some (Raise e) \<Rightarrow> Some (Raise e)
           | Some (Return (sub, traversed')) \<Rightarrow>
               analyze_pointer_cycles_refs n db refs (dict_merge cycles sub) traversed'))"

definition analyze_pointer_cycles ::
  "nat \<Rightarrow> ftdb \<Rightarrow> nat \<Rightarrow> (nat \<times> PointerCycle list) list res option" where
  "analyze_pointer_cycles n db type_id =
     (case detypedef db type_id of
        None \<Rightarrow> None
      | Some (Raise e) \<Rightarrow> Some (Raise e)
      | Some (Return t) \<Rightarrow>
          (case analyze_pointer_cycles_rec n db t [] of
             None \<Rightarrow> None
           | Some (Raise e) \<Rightarrow> Some (Raise e)
           | Some (Return (cycles, _)) \<Rightarrow> Some (Return cycles)))"

text \<open>The loop of \<open>process\<close> over the commands, in their iteration order.\<close>

fun merge_pointer_cycles ::
  "nat \<Rightarrow> ftdb \<Rightarrow> command list \<Rightarrow> (nat \<times> PointerCycle list) list
   \<Rightarrow> (nat \<times> PointerCycle list) list res option" where
  "merge_pointer_cycles n db [] acc = Some (Return acc)"
| "merge_pointer_cycles n db ((_, _, type_id) # cmds) acc =
     (case analyze_pointer_cycles n db type_id of
        None \<Rightarrow> None
      | Some (Raise e) \<Rightarrow> Some (Raise e)
      | Some (Return cycles) \<Rightarrow> merge_pointer_cycles n db cmds (dict_merge acc cycles))"

definition PointerCyclesPass_process ::
  "nat \<Rightarrow> ftdb \<Rightarrow> Fops \<Rightarrow> (Fops \<times> bool) res option" where
  "PointerCyclesPass_process n db fop =
     (case commands fop of
        None \<Rightarrow> Some (Raise AttributeError)
      | Some cmds \<Rightarrow>
          (case merge_pointer_cycles n db cmds [] of
             None \<Rightarrow> None
           | Some (Raise e) \<Rightarrow> Some (Raise e)
           | Some (Return pc) \<Rightarrow> Some (Return (fop \<lparr> pointer_cycles := Some pc \<rparr>, True))))"

section \<open>PointerBoundsPass\<close>

text \<open>\<open>BINDING_CALLS\<close>: for each user-copy function, the pairs (position of the size
  argument, position of the pointer argument).\<close>

definition BINDING_CALLS :: "(string \<times> (nat \<times> nat) list) list" where
  "BINDING_CALLS = [(''copy_from_user'', [(2, 0), (2, 1)]),
                    (''copy_to_user'', [(2, 0), (2, 1)])]"

record PointerBoundsPass =
  id_to_name :: "(nat \<times> string) list"

definition PointerBoundsPass_init :: "ftdb \<Rightarrow> PointerBoundsPass" where
  "PointerBoundsPass_init db =
     \<lparr> id_to_name =
         fold (\<lambda>func_name d.
                 fold (\<lambda>function_object d'. AList.update (f_id function_object) func_name d')
                      (funcs_entry_by_name db func_name) d)
              (map fst BINDING_CALLS) [] \<rparr>"

definition find_indexes_of_element :: "'a list \<Rightarrow> 'a \<Rightarrow> nat list" where
  "find_indexes_of_element lst element = filter (\<lambda>i. lst ! i = element) [0 ..< length lst]"

definition call_indexes_of :: "PointerBoundsPass \<Rightarrow> ftdb_func \<Rightarrow> nat list" where
  "call_indexes_of self db_func =
     concat (map (\<lambda>fid. find_indexes_of_element (f_calls db_func) fid)
                 (map fst (id_to_name self)))"

text \<open>Python list indexing at a natural number, and at \<open>-1\<close>.\<close>

definition py_nth :: "'a list \<Rightarrow> nat \<Rightarrow> 'a res" where
  "py_nth xs i = (if i < length xs then Return (xs ! i) else Raise IndexError)"

definition py_last :: "'a list \<Rightarrow> 'a res" where
  "py_last xs = (if xs = [] then Raise IndexError else Return (last xs))"

text \<open>The deref of the argument at position \<open>pos\<close> of the call at \<open>call_index\<close>.\<close>

definition argument_deref :: "ftdb_func \<Rightarrow> nat \<Rightarrow> nat \<Rightarrow> deref res" where
  "argument_deref db_func call_index pos =
     (case py_nth (f_call_info db_func) call_index of
        Raise e \<Rightarrow> Raise e
      | Return args \<Rightarrow>
          (case py_nth args pos of
             Raise e \<Rightarrow> Raise e
           | Return deref_id \<Rightarrow> py_nth (f_derefs db_func) deref_id))"

definition first_offsetref_kind :: "deref \<Rightarrow> string res" where
  "first_offsetref_kind d =
     (case py_nth (d_offsetrefs d) 0 of Raise e \<Rightarrow> Raise e | Return r \<Rightarrow> Return (or_kind r))"

text \<open>One assignment of the \<open>while\<close> loop: a deref that is not of kind \<open>member\<close> is
  replaced by the deref that its first offsetref names.\<close>

definition follow_offsetref :: "deref list \<Rightarrow> deref \<Rightarrow> deref res" where
  "follow_offsetref derefs d =
     (if d_kind d \<noteq> ''member'' then
        (case py_nth (d_offsetrefs d) 0 of
           Raise e \<Rightarrow> Raise e
         | Return r \<Rightarrow> py_nth derefs (or_id r))
      else Return d)"

partial_function (option) walk_to_members ::
  "deref list \<Rightarrow> deref \<Rightarrow> deref \<Rightarrow> (deref \<times> deref) res option" where
  "walk_to_members derefs binding_deref bound_deref =
     (if d_kind binding_deref \<noteq> ''member'' \<or> d_kind bound_deref \<noteq> ''member'' then
        (case follow_offsetref derefs binding_deref of
           Raise e \<Rightarrow> Some (Raise e)
         | Return binding_deref' \<Rightarrow>
             (case follow_offsetref derefs bound_deref of
                Raise e \<Rightarrow> Some (Raise e)
              | Return bound_deref' \<Rightarrow> walk_to_members derefs binding_deref' bound_deref'))
      else Some (Return (binding_deref, bound_deref)))"

declare walk_to_members.simps [code]

text \<open>What the body of the loop over the models does after the walk: the checks on the
  parent type, then the pair. \<open>None\<close> inside \<open>Return\<close> is a \<open>continue\<close>.\<close>

definition member_bounds_of :: "ftdb \<Rightarrow> deref \<Rightarrow> deref \<Rightarrow> MemberBounds option res" where
  "member_bounds_of db binding_deref bound_deref =
     (case py_last (d_type binding_deref) of
        Raise e \<Rightarrow> Raise e
      | Return binding_type \<Rightarrow>
          (case py_last (d_type bound_deref) of
             Raise e \<Rightarrow> Raise e
           | Return bound_type \<Rightarrow>
               if binding_type \<noteq> bound_type then Return None
               else (case types_entry_by_id db bound_type of
                  Raise e \<Rightarrow> Raise e
                | Return anchor_record \<Rightarrow>
                    if t_class anchor_record = ''record'' \<and> t_union anchor_record
                    then Return None
                    else (case py_last (d_member binding_deref) of
                       Raise e \<Rightarrow> Raise e
                     | Return binding_m \<Rightarrow>
                         (case py_last (d_member bound_deref) of
                            Raise e \<Rightarrow> Raise e
                          | Return bound_m \<Rightarrow>
                              Return (Some \<lparr> mb_type_id = bound_type,
                                             binding_member = binding_m,
                                             bound_member = bound_m \<rparr>))))))"

definition analyze_model ::
  "ftdb \<Rightarrow> ftdb_func \<Rightarrow> nat \<Rightarrow> nat \<times> nat \<Rightarrow> MemberBounds option res option" where
  "analyze_model db db_func call_index model =
     (case argument_deref db_func call_index (fst model) of
        Raise e \<Rightarrow> Some (Raise e)
      | Return binding_deref \<Rightarrow>
          (case argument_deref db_func call_index (snd model) of
             Raise e \<Rightarrow> Some (Raise e)
           | Return bound_deref \<Rightarrow>
               (case first_offsetref_kind binding_deref of
                  Raise e \<Rightarrow> Some (Raise e)
                | Return k1 \<Rightarrow>
                    if k1 \<noteq> ''member'' then Some (Return None)
                    else (case first_offsetref_kind bound_deref of
                       Raise e \<Rightarrow> Some (Raise e)
                     | Return k2 \<Rightarrow>
                         if k2 \<noteq> ''member'' then Some (Return None)
                         else (case walk_to_members (f_derefs db_func)
                                      binding_deref bound_deref of
                            None \<Rightarrow> None
                          | Some (Raise e) \<Rightarrow> Some (Raise e)
                          | Some (Return (b1, b2)) \<Rightarrow> Some (member_bounds_of db b1 b2))))))"

definition add_bounds ::
  "(nat \<times> MemberBounds list) list \<Rightarrow> MemberBounds \<Rightarrow> (nat \<times> MemberBounds list) list" where
  "add_bounds res mb =
     (case map_of res (mb_type_id mb) of
        Some s \<Rightarrow> if s \<noteq> [] then AList.update (mb_type_id mb) (pyset_add s mb) res
                  else AList.update (mb_type_id mb) [mb] res
      | None \<Rightarrow> AList.update (mb_type_id mb) [mb] res)"

fun analyze_models ::
  "ftdb \<Rightarrow> ftdb_func \<Rightarrow> nat \<Rightarrow> (nat \<times> nat) list \<Rightarrow> (nat \<times> MemberBounds list) list
   \<Rightarrow> (nat \<times> MemberBounds list) list res option" where
  "analyze_models db db_func call_index [] res = Some (Return res)"
| "analyze_models db db_func call_index (model # models) res =
     (case analyze_model db db_func call_index model of
        None \<Rightarrow> None
      | Some (Raise e) \<Rightarrow> Some (Raise e)
      | Some (Return None) \<Rightarrow> analyze_models db db_func call_index models res
      | Some (Return (Some mb)) \<Rightarrow>
          analyze_models db db_func call_index models (add_bounds res mb))"

definition models_of_call :: "PointerBoundsPass \<Rightarrow> ftdb_func \<Rightarrow> nat \<Rightarrow> (nat \<times> nat) list" where
  "models_of_call self db_func call_index =
     (case map_of (id_to_name self) (f_calls db_func ! call_index) of
        None \<Rightarrow> []
      | Some func_name \<Rightarrow> (case map_of BINDING_CALLS func_name of None \<Rightarrow> [] | Some ms \<Rightarrow> ms))"

fun analyze_calls ::
  "PointerBoundsPass \<Rightarrow> ftdb \<Rightarrow> ftdb_func \<Rightarrow> nat list \<Rightarrow> (nat \<times> MemberBounds list) list
   \<Rightarrow> (nat \<times> MemberBounds list) list res option" where
  "analyze_calls self db db_func [] res = Some (Return res)"
| "analyze_calls self db db_func (call_index # rest) res =
     (case analyze_models db db_func call_index (models_of_call self db_func call_index) res of
        None \<Rightarrow> None
      | Some (Raise e) \<Rightarrow> Some (Raise e)
      | Some (Return res') \<Rightarrow> analyze_calls self db db_func rest res')"

text \<open>\<open>res = { **res, **self.analyze_bounds(call, depth + 1) }\<close> over the calls, in order.\<close>

fun merge_all ::
  "('k \<times> 'v) list \<Rightarrow> ('k \<times> 'v) list res option list \<Rightarrow> ('k \<times> 'v) list res option" where
  "merge_all acc [] = Some (Return acc)"
| "merge_all acc (None # rs) = None"
| "merge_all acc (Some (Raise e) # rs) = Some (Raise e)"
| "merge_all acc (Some (Return d) # rs) = merge_all (dict_merge acc d) rs"

function analyze_bounds ::
  "PointerBoundsPass \<Rightarrow> ftdb \<Rightarrow> nat \<Rightarrow> nat \<Rightarrow> nat \<Rightarrow> (nat \<times> MemberBounds list) list res option"
  where
  "analyze_bounds self db func_id depth max_depth =
     (case funcs_entry_by_id db func_id of
        Raise _ \<Rightarrow> Some (Return [])
      | Return db_func \<Rightarrow>
          if depth > max_depth \<or> length (call_indexes_of self db_func) = 0
          then Some (Return [])
          else (case analyze_calls self db db_func (call_indexes_of self db_func) [] of
                  None \<Rightarrow> None
                | Some (Raise e) \<Rightarrow> Some (Raise e)
                | Some (Return res) \<Rightarrow>
                    merge_all res
                      (map (\<lambda>call. analyze_bounds self db call (depth + 1) 4)
                           (f_calls db_func))))"
  by pat_completeness auto
termination
  by (relation "measure (\<lambda>(self, db, func_id, depth, max_depth).
                   if max_depth = 4 then 5 - depth else 7)") auto

declare analyze_bounds.simps [simp del]

definition PointerBoundsPass_process ::
  "PointerBoundsPass \<Rightarrow> ftdb \<Rightarrow> Fops \<Rightarrow> (Fops \<times> bool) res option" where
  "PointerBoundsPass_process self db fop =
     (case analyze_bounds self db (syscall_id fop) 1 4 of
        None \<Rightarrow> None
      | Some (Raise e) \<Rightarrow> Some (Raise e)
      | Some (Return res) \<Rightarrow> Some (Return (fop \<lparr> pointer_bounds := Some res \<rparr>, True)))"

section \<open>The declarations of the description language\<close>

datatype decl =
    BaseDeclaration
  | RecordDeclaration string
  | EnumDeclaration string decl
  | IntegerDeclaration nat
  | VoidDeclaration
  | ArrayDeclaration decl nat
  | PointerDeclaration decl bool
  | LengthDeclaration string string

text \<open>The constructor of \<open>ArrayDeclaration\<close> replaces a size that is not positive.\<close>

definition ArrayDeclaration_init :: "decl \<Rightarrow> nat \<Rightarrow> decl" where
  "ArrayDeclaration_init inside_type sz = ArrayDeclaration inside_type (if sz > 0 then sz else 1)"

definition PointerDeclaration_init :: "decl \<Rightarrow> decl" where
  "PointerDeclaration_init inside_type = PointerDeclaration inside_type False"

text \<open>Decimal numerals, as an f-string writes an integer.\<close>

function str_nat :: "nat \<Rightarrow> string" where
  "str_nat n = (if n < 10 then [''0123456789'' ! n]
                else str_nat (n div 10) @ [''0123456789'' ! (n mod 10)])"
  by pat_completeness auto
termination
  by (relation "measure id") auto

declare str_nat.simps [simp del]

definition str_int :: "int \<Rightarrow> string" where
  "str_int i = (if i < 0 then CHR ''-'' # str_nat (nat (- i)) else str_nat (nat i))"

definition nl :: string where
  "nl = [CHR 0x0A]"

definition tab :: string where
  "tab = [CHR 0x09]"

fun str_decl :: "decl \<Rightarrow> string" where
  "str_decl BaseDeclaration = ''''"
| "str_decl (RecordDeclaration n) = n"
| "str_decl (EnumDeclaration layout_type inside_type) =
     ''flags['' @ layout_type @ '', '' @ str_decl inside_type @ '']''"
| "str_decl (IntegerDeclaration sz) = ''int'' @ str_nat sz"
| "str_decl VoidDeclaration = ''void''"
| "str_decl (ArrayDeclaration inside_type sz) =
     ''array['' @ str_decl inside_type @ '', '' @ str_nat sz @ '']''"
| "str_decl (PointerDeclaration inside_type optional) =
     (if inside_type = VoidDeclaration then ''buffer[inout]''
      else if optional then ''ptr[inout, '' @ str_decl inside_type @ '', opt]''
      else ''ptr[inout, '' @ str_decl inside_type @ '']'')"
| "str_decl (LengthDeclaration field_name inside_type) =
     ''len['' @ field_name @ '', '' @ inside_type @ '']''"

record RecordField =
  rf_name :: string
  type_decl :: decl

definition str_RecordField :: "RecordField \<Rightarrow> string" where
  "str_RecordField f = rf_name f @ '' '' @ str_decl (type_decl f)"

definition str_RecordDefinition :: "string \<Rightarrow> RecordField list \<Rightarrow> bool \<Rightarrow> string" where
  "str_RecordDefinition n flds un =
     n @ '' '' @ (if un then ''['' else ''{'') @ nl
       @ concat (map (\<lambda>field. tab @ str_RecordField field @ nl) flds)
       @ (if un then '']'' else ''}'') @ nl @ nl"

fun join_values :: "string list \<Rightarrow> string" where
  "join_values [] = ''''"
| "join_values [v] = v"
| "join_values (v # vs) = v @ '', '' @ join_values vs"

definition str_EnumDefinition :: "string \<Rightarrow> int list \<Rightarrow> string" where
  "str_EnumDefinition n vals = n @ '' = '' @ join_values (map str_int vals) @ nl @ nl"

definition str_IoctlDeclaration :: "string \<Rightarrow> string \<Rightarrow> decl \<Rightarrow> string" where
  "str_IoctlDeclaration fd_name label argument =
     ''ioctl$'' @ label @ ''_syzdescriptor(fd '' @ fd_name @ '', cmd const['' @ label
       @ ''_syzdescriptor], arg '' @ str_decl argument @ '')'' @ nl @ nl"

definition str_OpenDeclaration :: "string \<Rightarrow> string \<Rightarrow> string \<Rightarrow> string" where
  "str_OpenDeclaration label open_path fd_name =
     ''openat$'' @ label @ ''_syzdescriptor(fd const[AT_FDCWD], file ptr[in, string[''
       @ open_path @ ''_syzdescriptor]], flags flags[open_flags], mode const[0]) ''
       @ fd_name @ nl @ nl"

datatype const_value = IntValue int | StrValue string

definition str_const_value :: "const_value \<Rightarrow> string" where
  "str_const_value v = (case v of IntValue i \<Rightarrow> str_int i | StrValue s \<Rightarrow> s)"

definition str_ConstantDefinition :: "string \<Rightarrow> const_value \<Rightarrow> string" where
  "str_ConstantDefinition n v = n @ ''_syzdescriptor = '' @ str_const_value v @ nl"

section \<open>Generator\<close>

record Generator =
  generated_consts :: "(string \<times> const_value) list"
  generated_types :: "(nat \<times> string list) list"

definition Generator_init :: Generator where
  "Generator_init = \<lparr> generated_consts = [], generated_types = [] \<rparr>"

lemma length_le_sum_list_lengths: "x \<in> set xs \<Longrightarrow> length x \<le> sum_list (map length xs)"
  by (induction xs) auto

function find_new_const_name :: "string list \<Rightarrow> string \<Rightarrow> string" where
  "find_new_const_name keys n =
     (if n \<in> set keys then find_new_const_name keys (n @ ''_'') else n)"
  by pat_completeness auto
termination
  by (relation "measure (\<lambda>(keys, n). sum_list (map length keys) + 1 - length n)")
     (auto dest: length_le_sum_list_lengths)

declare find_new_const_name.simps [simp del]

text \<open>\<open>__rename_already_used_consts\<close>: the commands whose label is already a key are
  collected first, then each is replaced in the set of commands.\<close>

definition rename_already_used_consts ::
  "py_env \<Rightarrow> Generator \<Rightarrow> command list \<Rightarrow> command list" where
  "rename_already_used_consts env g cmds =
     (let keys = map fst (generated_consts g);
          to_remove = order_commands env (filter (\<lambda>(label, value, type_id). label \<in> set keys) cmds)
      in if to_remove = [] then cmds
         else order_commands env
                (fold (\<lambda>el cs. pyset_add (removeAll el cs)
                                   (find_new_const_name keys (fst el), fst (snd el), snd (snd el)))
                      to_remove cmds))"

fun write_consts :: "command list \<Rightarrow> string \<Rightarrow> Generator \<Rightarrow> string \<times> Generator" where
  "write_consts [] buffer g = (buffer, g)"
| "write_consts ((label, value, _) # cmds) buffer g =
     write_consts cmds (buffer @ str_ConstantDefinition label (IntValue value))
       (g \<lparr> generated_consts := AList.update label (IntValue value) (generated_consts g) \<rparr>)"

text \<open>\<open>generate_const_file\<close> returns the text; the generator and the commands of the
  handler are changed in place, so both are returned with it.\<close>

definition generate_const_file ::
  "py_env \<Rightarrow> Generator \<Rightarrow> Fops \<Rightarrow> (string \<times> Generator \<times> Fops) res" where
  "generate_const_file env g fop =
     (case commands fop of
        None \<Rightarrow> Raise AttributeError
      | Some cmds \<Rightarrow>
          (let cmds' = rename_already_used_consts env g cmds;
               (text, g') = write_consts cmds' [] g
           in Return (text, g', fop \<lparr> commands := Some cmds' \<rparr>)))"

definition assign_name_to_type ::
  "ftdb \<Rightarrow> Generator \<Rightarrow> nat \<Rightarrow> ((nat \<times> string) option \<times> Generator) res option" where
  "assign_name_to_type db g typeid =
     (case map_of (generated_types g) typeid of
        Some (n # ns) \<Rightarrow>
          (let new_name = last (n # ns) @ ''_''
           in Some (Return (Some (typeid, new_name),
                g \<lparr> generated_types :=
                      AList.update typeid ((n # ns) @ [new_name]) (generated_types g) \<rparr>)))
      | _ \<Rightarrow>
          (case detypedef db typeid of
             None \<Rightarrow> None
           | Some (Raise e) \<Rightarrow> Some (Raise e)
           | Some (Return t) \<Rightarrow>
               (case types_entry_by_id db t of
                  Raise e \<Rightarrow> Some (Raise e)
                | Return db_type \<Rightarrow>
                    if t_class db_type \<notin> set [''record'', ''enum''] then Some (Return (None, g))
                    else (let n = (if t_str db_type = [] then ''ANONTYPE_'' @ str_nat typeid
                                   else t_str db_type)
                          in Some (Return (Some (typeid, n),
                               g \<lparr> generated_types :=
                                     AList.update typeid [n] (generated_types g) \<rparr>))))))"

text \<open>The name under which a record or an enum was generated last, if any.\<close>

definition generated_name :: "Generator \<Rightarrow> nat \<Rightarrow> string option" where
  "generated_name g type_id =
     (case map_of (generated_types g) type_id of
        Some (n # ns) \<Rightarrow> Some (last (n # ns))
      | _ \<Rightarrow> None)"

text \<open>\<open>__generate_type_declaration\<close> recurses into the element of an array and the
  pointee of a pointer; the first argument bounds the depth of the recursion.\<close>

fun generate_type_declaration ::
  "nat \<Rightarrow> py_env \<Rightarrow> ftdb \<Rightarrow> Generator \<Rightarrow> nat \<Rightarrow> decl res option" where
  "generate_type_declaration 0 env db g type_id = None"
| "generate_type_declaration (Suc n) env db g type_id =
     (case detypedef db type_id of
        None \<Rightarrow> None
      | Some (Raise e) \<Rightarrow> Some (Raise e)
      | Some (Return t) \<Rightarrow>
       (case types_entry_by_id db t of
          Raise e \<Rightarrow> Some (Raise e)
        | Return db_type \<Rightarrow>
            if t_class db_type = ''record'' then
              (case generated_name g (t_id db_type) of
                 None \<Rightarrow> Some (Return BaseDeclaration)
               | Some nm \<Rightarrow> Some (Return (RecordDeclaration nm)))
            else if t_class db_type = ''const_array'' \<or> t_class db_type = ''incomplete_array'' then
              (let sz = (if t_size db_type = 0 then 1 else t_size db_type)
               in case py_nth (t_refs db_type) 0 of
                    Raise e \<Rightarrow> Some (Raise e)
                  | Return r \<Rightarrow>
                     (case types_entry_by_id db r of
                        Raise e \<Rightarrow> Some (Raise e)
                      | Return underlying_type \<Rightarrow>
                         (case generate_type_declaration n env db g r of
                            None \<Rightarrow> None
                          | Some (Raise e) \<Rightarrow> Some (Raise e)
                          | Some (Return inner) \<Rightarrow>
                              if t_size underlying_type = 0 then Some (Raise ZeroDivisionError)
                              else Some (Return (ArrayDeclaration_init inner
                                                   (int_truediv env sz (t_size underlying_type)))))))
            else if t_class db_type = ''enum'' then
              (case generated_name g (t_id db_type) of
                 None \<Rightarrow> Some (Return BaseDeclaration)
               | Some nm \<Rightarrow> Some (Return (EnumDeclaration nm (IntegerDeclaration 32))))
            else if t_class db_type = ''pointer'' then
              (case py_nth (t_refs db_type) 0 of
                 Raise e \<Rightarrow> Some (Raise e)
               | Return r \<Rightarrow>
                  (case detypedef db r of
                     None \<Rightarrow> None
                   | Some (Raise e) \<Rightarrow> Some (Raise e)
                   | Some (Return r') \<Rightarrow>
                      (case generate_type_declaration n env db g r' of
                         None \<Rightarrow> None
                       | Some (Raise e) \<Rightarrow> Some (Raise e)
                       | Some (Return inner) \<Rightarrow> Some (Return (PointerDeclaration_init inner)))))
            else if t_class db_type = ''builtin'' \<and> t_str db_type = ''void'' then
              Some (Return VoidDeclaration)
            else if t_class db_type = ''builtin'' \<and> t_size db_type > 64 then
              (if t_size db_type mod 8 \<noteq> 0 then Some (Raise AssertionError)
               else Some (Return (ArrayDeclaration_init (IntegerDeclaration 8)
                                    (int_truediv env (t_size db_type) 8))))
            else if t_class db_type = ''builtin'' then
              Some (Return (IntegerDeclaration (t_size db_type)))
            else Some (Return BaseDeclaration)))"

text \<open>The list of fields of \<open>generate_record_definition\<close>; the counter numbers the
  anonymous members of this record.\<close>

fun record_fields ::
  "nat \<Rightarrow> py_env \<Rightarrow> ftdb \<Rightarrow> Generator \<Rightarrow> (string \<times> nat) list \<Rightarrow> nat \<Rightarrow> RecordField list res option" where
  "record_fields n env db g [] anonymous_count = Some (Return [])"
| "record_fields n env db g ((field_name, type_id) # rest) anonymous_count =
     (let anon = (field_name = ''__!anonrecord__'' \<or> field_name = ''__!recorddecl__'');
          nm = (if anon then ''anonymous'' @ str_nat anonymous_count else field_name);
          count' = (if anon then anonymous_count + 1 else anonymous_count)
      in case generate_type_declaration n env db g type_id of
           None \<Rightarrow> None
         | Some (Raise e) \<Rightarrow> Some (Raise e)
         | Some (Return d) \<Rightarrow>
             (case record_fields n env db g rest count' of
                None \<Rightarrow> None
              | Some (Raise e) \<Rightarrow> Some (Raise e)
              | Some (Return fs) \<Rightarrow> Some (Return (\<lparr> rf_name = nm, type_decl = d \<rparr> # fs))))"

text \<open>The rewrite of the binding field into a length declaration, one bound after the
  other.\<close>

fun apply_bounds :: "MemberBounds list \<Rightarrow> RecordField list \<Rightarrow> RecordField list res" where
  "apply_bounds [] flds = Return flds"
| "apply_bounds (bound # rest) flds =
     (case py_nth flds (binding_member bound) of
        Raise e \<Rightarrow> Raise e
      | Return binding_field \<Rightarrow>
          (case py_nth flds (bound_member bound) of
             Raise e \<Rightarrow> Raise e
           | Return bound_field \<Rightarrow>
               apply_bounds rest
                 (flds [binding_member bound :=
                    binding_field \<lparr> type_decl :=
                      LengthDeclaration (rf_name bound_field)
                        (str_decl (type_decl binding_field)) \<rparr>])))"

text \<open>Setting the attribute \<open>optional\<close> changes the text of a pointer declaration only.\<close>

definition set_optional :: "decl \<Rightarrow> decl" where
  "set_optional d = (case d of PointerDeclaration inside_type _ \<Rightarrow> PointerDeclaration inside_type True
                             | _ \<Rightarrow> d)"

fun apply_cycles :: "PointerCycle list \<Rightarrow> RecordField list \<Rightarrow> RecordField list res" where
  "apply_cycles [] flds = Return flds"
| "apply_cycles (cycle # rest) flds =
     (case py_nth flds (member_position cycle) of
        Raise e \<Rightarrow> Raise e
      | Return field \<Rightarrow>
          apply_cycles rest
            (flds [member_position cycle :=
               field \<lparr> type_decl := set_optional (type_decl field) \<rparr>]))"

text \<open>A dictionary lookup with \<open>get\<close>, tested for truth: a missing key and an empty
  value both skip the branch.\<close>

definition dict_get_list :: "('k \<times> 'v list) list \<Rightarrow> 'k \<Rightarrow> 'v list" where
  "dict_get_list d k = (case map_of d k of None \<Rightarrow> [] | Some v \<Rightarrow> v)"

definition generate_record_fields ::
  "nat \<Rightarrow> py_env \<Rightarrow> ftdb \<Rightarrow> Generator \<Rightarrow> (nat \<times> MemberBounds list) list
   \<Rightarrow> (nat \<times> PointerCycle list) list \<Rightarrow> nat \<Rightarrow> RecordField list res option" where
  "generate_record_fields n env db g bounds cycles type_id =
     (case detypedef db type_id of
        None \<Rightarrow> None
      | Some (Raise e) \<Rightarrow> Some (Raise e)
      | Some (Return t) \<Rightarrow>
       (case types_entry_by_id db t of
          Raise e \<Rightarrow> Some (Raise e)
        | Return db_type \<Rightarrow>
           (case record_fields n env db g (zip (t_refnames db_type) (t_refs db_type)) 0 of
              None \<Rightarrow> None
            | Some (Raise e) \<Rightarrow> Some (Raise e)
            | Some (Return flds) \<Rightarrow>
               (case apply_bounds (order_bounds env (dict_get_list bounds type_id)) flds of
                  Raise e \<Rightarrow> Some (Raise e)
                | Return flds' \<Rightarrow>
                    Some (apply_cycles (dict_get_list cycles type_id) flds')))))"

definition generate_record_definition ::
  "nat \<Rightarrow> py_env \<Rightarrow> ftdb \<Rightarrow> Generator \<Rightarrow> (nat \<times> MemberBounds list) list
   \<Rightarrow> (nat \<times> PointerCycle list) list \<Rightarrow> nat \<Rightarrow> string \<Rightarrow> bool \<Rightarrow> string res option" where
  "generate_record_definition n env db g bounds cycles type_id nm un =
     (case generate_record_fields n env db g bounds cycles type_id of
        None \<Rightarrow> None
      | Some (Raise e) \<Rightarrow> Some (Raise e)
      | Some (Return flds) \<Rightarrow> Some (Return (str_RecordDefinition nm flds un)))"

definition generate_enum_definition :: "ftdb \<Rightarrow> nat \<Rightarrow> string \<Rightarrow> string res option" where
  "generate_enum_definition db type_id nm =
     (case detypedef db type_id of
        None \<Rightarrow> None
      | Some (Raise e) \<Rightarrow> Some (Raise e)
      | Some (Return t) \<Rightarrow>
          (case types_entry_by_id db t of
             Raise e \<Rightarrow> Some (Raise e)
           | Return db_type \<Rightarrow> Some (Return (str_EnumDefinition nm (t_values db_type)))))"

definition generate_type_definition ::
  "nat \<Rightarrow> py_env \<Rightarrow> ftdb \<Rightarrow> Generator \<Rightarrow> (nat \<times> MemberBounds list) list
   \<Rightarrow> (nat \<times> PointerCycle list) list \<Rightarrow> nat \<Rightarrow> string \<Rightarrow> string res option" where
  "generate_type_definition n env db g bounds cycles type_id nm =
     (case detypedef db type_id of
        None \<Rightarrow> None
      | Some (Raise e) \<Rightarrow> Some (Raise e)
      | Some (Return t) \<Rightarrow>
          (case types_entry_by_id db t of
             Raise e \<Rightarrow> Some (Raise e)
           | Return db_type \<Rightarrow>
               if t_class db_type = ''record'' \<and> \<not> t_union db_type then
                 generate_record_definition n env db g bounds cycles type_id nm False
               else if t_class db_type = ''record'' \<and> t_union db_type then
                 generate_record_definition n env db g bounds cycles type_id nm True
               else if t_class db_type = ''enum'' then generate_enum_definition db type_id nm
               else Some (Return '''')))"

definition generate_ioctl_declaration ::
  "nat \<Rightarrow> py_env \<Rightarrow> ftdb \<Rightarrow> Generator \<Rightarrow> string \<Rightarrow> string \<Rightarrow> nat \<Rightarrow> string res option" where
  "generate_ioctl_declaration n env db g fd_name label type_id =
     (case detypedef db type_id of
        None \<Rightarrow> None
      | Some (Raise e) \<Rightarrow> Some (Raise e)
      | Some (Return t) \<Rightarrow>
          (case types_entry_by_id db t of
             Raise e \<Rightarrow> Some (Raise e)
           | Return db_type \<Rightarrow>
               (case generate_type_declaration n env db g type_id of
                  None \<Rightarrow> None
                | Some (Raise e) \<Rightarrow> Some (Raise e)
                | Some (Return argument_type) \<Rightarrow>
                    if argument_type = BaseDeclaration then Some (Return '''')
                    else if t_class db_type = ''pointer'' then
                      Some (Return (str_IoctlDeclaration fd_name label argument_type))
                    else Some (Return (str_IoctlDeclaration fd_name label
                                         (PointerDeclaration_init argument_type))))))"

definition generate_header :: "py_env \<Rightarrow> string \<Rightarrow> string \<Rightarrow> nat \<Rightarrow> string" where
  "generate_header env fd_name path_constant anchor_id =
     ''# Generated by syzdescriptor on '' @ today env @ nl
       @ ''# Path constant is: '' @ path_constant @ nl
       @ ''# Anchor function ID is: '' @ str_nat anchor_id @ nl
       @ ''include <linux/ioctl.h>'' @ nl
       @ ''include <linux/types.h>'' @ nl
       @ nl
       @ ''resource '' @ fd_name @ ''[fd]'' @ nl @ nl"

text \<open>The three loops of \<open>generate_description\<close>: names for the dependencies, the ioctl
  declarations, the type definitions.\<close>

fun assign_names ::
  "ftdb \<Rightarrow> Generator \<Rightarrow> nat list \<Rightarrow> ((nat \<times> string) option list \<times> Generator) res option" where
  "assign_names db g [] = Some (Return ([], g))"
| "assign_names db g (x # xs) =
     (case assign_name_to_type db g x of
        None \<Rightarrow> None
      | Some (Raise e) \<Rightarrow> Some (Raise e)
      | Some (Return (r, g')) \<Rightarrow>
          (case assign_names db g' xs of
             None \<Rightarrow> None
           | Some (Raise e) \<Rightarrow> Some (Raise e)
           | Some (Return (rs, g'')) \<Rightarrow> Some (Return (r # rs, g''))))"

fun write_ioctl_declarations ::
  "nat \<Rightarrow> py_env \<Rightarrow> ftdb \<Rightarrow> Generator \<Rightarrow> string \<Rightarrow> command list \<Rightarrow> string res option" where
  "write_ioctl_declarations n env db g fd_name [] = Some (Return '''')"
| "write_ioctl_declarations n env db g fd_name ((label, _, type_id) # cmds) =
     (case generate_ioctl_declaration n env db g fd_name label type_id of
        None \<Rightarrow> None
      | Some (Raise e) \<Rightarrow> Some (Raise e)
      | Some (Return s) \<Rightarrow>
          (case write_ioctl_declarations n env db g fd_name cmds of
             None \<Rightarrow> None
           | Some (Raise e) \<Rightarrow> Some (Raise e)
           | Some (Return rest) \<Rightarrow> Some (Return (s @ rest))))"

fun write_type_definitions ::
  "nat \<Rightarrow> py_env \<Rightarrow> ftdb \<Rightarrow> Generator \<Rightarrow> (nat \<times> MemberBounds list) list
   \<Rightarrow> (nat \<times> PointerCycle list) list \<Rightarrow> (nat \<times> string) list \<Rightarrow> string res option" where
  "write_type_definitions n env db g bounds cycles [] = Some (Return '''')"
| "write_type_definitions n env db g bounds cycles ((type_id, nm) # rest) =
     (case generate_type_definition n env db g bounds cycles type_id nm of
        None \<Rightarrow> None
      | Some (Raise e) \<Rightarrow> Some (Raise e)
      | Some (Return s) \<Rightarrow>
          (case write_type_definitions n env db g bounds cycles rest of
             None \<Rightarrow> None
           | Some (Raise e) \<Rightarrow> Some (Raise e)
           | Some (Return rest') \<Rightarrow> Some (Return (s @ rest'))))"

text \<open>The set of named dependencies of \<open>generate_description\<close>, in the order in which
  the last loop iterates it.\<close>

definition named_deps :: "py_env \<Rightarrow> (nat \<times> string) option list \<Rightarrow> (nat \<times> string) list" where
  "named_deps env rs = order_named env (pyset_union [] (map the (filter (\<lambda>x. x \<noteq> None) rs)))"

definition generate_description ::
  "nat \<Rightarrow> py_env \<Rightarrow> ftdb \<Rightarrow> Generator \<Rightarrow> Fops \<Rightarrow> (string \<times> Generator) res option" where
  "generate_description n env db g fop =
     (case deps fop of
        None \<Rightarrow> Some (Raise AttributeError)
      | Some ds \<Rightarrow>
       (case assign_names db g ds of
          None \<Rightarrow> None
        | Some (Raise e) \<Rightarrow> Some (Raise e)
        | Some (Return (rs, g1)) \<Rightarrow>
          (let fd_name = ''fd_'' @ name fop;
               path = find_new_const_name (map fst (generated_consts g1))
                        (''SYZDESCRIPTOR_PATH_'' @ str_nat (syscall_id fop));
               g2 = g1 \<lparr> generated_consts :=
                           AList.update path (StrValue '''') (generated_consts g1) \<rparr>;
               head = generate_header env fd_name path (syscall_id fop)
                        @ str_OpenDeclaration (name fop) path fd_name
           in case commands fop of
                None \<Rightarrow> Some (Raise AttributeError)
              | Some cmds \<Rightarrow>
                 (case write_ioctl_declarations n env db g2 fd_name cmds of
                    None \<Rightarrow> None
                  | Some (Raise e) \<Rightarrow> Some (Raise e)
                  | Some (Return ioctls) \<Rightarrow>
                     (case pointer_bounds fop of
                        None \<Rightarrow> Some (Raise AttributeError)
                      | Some bounds \<Rightarrow>
                         (case pointer_cycles fop of
                            None \<Rightarrow> Some (Raise AttributeError)
                          | Some cycles \<Rightarrow>
                             (case write_type_definitions n env db g2 bounds cycles
                                     (named_deps env rs) of
                                None \<Rightarrow> None
                              | Some (Raise e) \<Rightarrow> Some (Raise e)
                              | Some (Return defs) \<Rightarrow>
                                  Some (Return (head @ ioctls @ nl @ defs, g2)))))))))"

section \<open>GenerationDriver\<close>

datatype analysis_pass =
    IoctlAnalysis
  | TypeAnalysis
  | PointerCycles
  | PointerBounds PointerBoundsPass

record GenerationDriver =
  collector :: FopsCollector
  generator :: Generator
  passes :: "(analysis_pass \<times> bool) list"
  output_path :: string
  architecture :: string

definition GenerationDriver_init :: "ftdb \<Rightarrow> string \<Rightarrow> string \<Rightarrow> GenerationDriver res" where
  "GenerationDriver_init db out arch =
     (case FopsCollector_init db of
        Raise e \<Rightarrow> Raise e
      | Return c \<Rightarrow>
          Return \<lparr> collector = c, generator = Generator_init,
                   passes = [(IoctlAnalysis, True), (TypeAnalysis, True),
                             (PointerCycles, False),
                             (PointerBounds (PointerBoundsPass_init db), False)],
                   output_path = out, architecture = arch \<rparr>)"

definition process :: "nat \<Rightarrow> py_env \<Rightarrow> ftdb \<Rightarrow> analysis_pass \<Rightarrow> Fops \<Rightarrow> (Fops \<times> bool) res option" where
  "process n env db p fop =
     (case p of
        IoctlAnalysis \<Rightarrow> Some (IoctlAnalysisPass_process env db fop)
      | TypeAnalysis \<Rightarrow> TypeAnalysisPass_process n env db fop
      | PointerCycles \<Rightarrow> PointerCyclesPass_process n db fop
      | PointerBounds self \<Rightarrow> PointerBoundsPass_process self db fop)"

text \<open>The files are a list of paths with their contents; \<open>open(path, 'x')\<close> raises when
  the path is there already.\<close>

definition dump_file ::
  "nat \<Rightarrow> py_env \<Rightarrow> ftdb \<Rightarrow> GenerationDriver \<Rightarrow> (string \<times> string) list \<Rightarrow> Fops
   \<Rightarrow> ((string \<times> string) list \<times> GenerationDriver) res option" where
  "dump_file n env db drv files fop =
     (let const_path = path_join env (output_path drv)
                         (name fop @ ''_'' @ architecture drv @ ''.const'');
          desc_path = path_join env (output_path drv) (name fop @ ''.txt'')
      in if const_path \<in> set (map fst files) then Some (Raise FileExistsError)
         else case generate_const_file env (generator drv) fop of
           Raise e \<Rightarrow> Some (Raise e)
         | Return (consts, g1, fop1) \<Rightarrow>
             if desc_path \<in> set (map fst (files @ [(const_path, consts)]))
             then Some (Raise FileExistsError)
             else (case generate_description n env db g1 fop1 of
                     None \<Rightarrow> None
                   | Some (Raise e) \<Rightarrow> Some (Raise e)
                   | Some (Return (desc, g2)) \<Rightarrow>
                       Some (Return (files @ [(const_path, consts), (desc_path, desc)],
                                     drv \<lparr> generator := g2 \<rparr>))))"

text \<open>
  \<open>__generate_description\<close>: an exception of a pass ends the program with
  \<open>sys.exit(1)\<close>; a pass that fails with \<open>skip_on_fail\<close> set discards the handler before
  any file is opened; otherwise the two files are written. An exception of \<open>dump_file\<close>
  is not caught.
\<close>

datatype driver_outcome =
    SysExit
  | Discarded
  | Dumped "(string \<times> string) list" GenerationDriver
  | Uncaught error

fun run_passes ::
  "nat \<Rightarrow> py_env \<Rightarrow> ftdb \<Rightarrow> GenerationDriver \<Rightarrow> (string \<times> string) list
   \<Rightarrow> (analysis_pass \<times> bool) list \<Rightarrow> Fops \<Rightarrow> driver_outcome option" where
  "run_passes n env db drv files [] fop =
     (case dump_file n env db drv files fop of
        None \<Rightarrow> None
      | Some (Raise e) \<Rightarrow> Some (Uncaught e)
      | Some (Return (files', drv')) \<Rightarrow> Some (Dumped files' drv'))"
| "run_passes n env db drv files ((p, skip_on_fail) # rest) fop =
     (case process n env db p fop of
        None \<Rightarrow> None
      | Some (Raise e) \<Rightarrow> Some SysExit
      | Some (Return (fop', success)) \<Rightarrow>
          if skip_on_fail \<and> \<not> success then Some Discarded
          else run_passes n env db drv files rest fop')"

definition driver_generate_description ::
  "nat \<Rightarrow> py_env \<Rightarrow> ftdb \<Rightarrow> GenerationDriver \<Rightarrow> (string \<times> string) list \<Rightarrow> Fops
   \<Rightarrow> driver_outcome option" where
  "driver_generate_description n env db drv files fop =
     run_passes n env db drv files (passes drv) fop"

section \<open>Notions used to state the properties\<close>

text \<open>A type id is closed in a set of ids when it has an entry and, unless it is an
  enum, every reference of the entry leads, after \<open>detypedef\<close>, into the set.\<close>

definition closed_at :: "ftdb \<Rightarrow> nat list \<Rightarrow> nat \<Rightarrow> bool" where
  "closed_at db found d \<longleftrightarrow>
     (\<exists>e. types_entry_by_id db d = Return e
        \<and> (t_class e \<noteq> ''enum'' \<longrightarrow>
             (\<forall>r \<in> set (t_refs e). \<exists>t. detypedef db r = Some (Return t) \<and> t \<in> set found)))"

text \<open>One step of field dependence, as the search follows it: from a type that is not
  an enum to the concrete type of one of its references.\<close>

definition field_dep :: "ftdb \<Rightarrow> nat \<Rightarrow> nat \<Rightarrow> bool" where
  "field_dep db d t \<longleftrightarrow>
     (\<exists>e. types_entry_by_id db d = Return e \<and> t_class e \<noteq> ''enum''
        \<and> (\<exists>r \<in> set (t_refs e). detypedef db r = Some (Return t)))"

text \<open>A function calls a user-copy function directly when one of its calls is a key of
  \<open>id_to_name\<close>. A chain of calls in which every function does so.\<close>

definition calls_user_copy :: "PointerBoundsPass \<Rightarrow> ftdb \<Rightarrow> nat \<Rightarrow> bool" where
  "calls_user_copy self db fid =
     (case funcs_entry_by_id db fid of
        Raise _ \<Rightarrow> False
      | Return db_func \<Rightarrow> call_indexes_of self db_func \<noteq> [])"

definition calls_of :: "ftdb \<Rightarrow> nat \<Rightarrow> nat list" where
  "calls_of db fid = (case funcs_entry_by_id db fid of Raise _ \<Rightarrow> [] | Return db_func \<Rightarrow> f_calls db_func)"

fun copy_chain :: "PointerBoundsPass \<Rightarrow> ftdb \<Rightarrow> nat list \<Rightarrow> bool" where
  "copy_chain self db [] = True"
| "copy_chain self db [f] = calls_user_copy self db f"
| "copy_chain self db (f # g # fs) =
     (calls_user_copy self db f \<and> g \<in> set (calls_of db f) \<and> copy_chain self db (g # fs))"

text \<open>The pairs that the loop over the user-copy calls of one function records.\<close>

definition local_bounds ::
  "PointerBoundsPass \<Rightarrow> ftdb \<Rightarrow> nat \<Rightarrow> (nat \<times> MemberBounds list) list res option" where
  "local_bounds self db fid =
     (case funcs_entry_by_id db fid of
        Raise _ \<Rightarrow> Some (Return [])
      | Return db_func \<Rightarrow> analyze_calls self db db_func (call_indexes_of self db_func) [])"

text \<open>What holds of a pair stored under the type id \<open>T\<close>: it carries \<open>T\<close>, the entry of
  \<open>T\<close> is not a union record, and its two indices are the last member indices of two
  member derefs of one function whose last parent type is \<open>T\<close>.\<close>

definition bound_pair_ok :: "ftdb \<Rightarrow> nat \<Rightarrow> MemberBounds \<Rightarrow> bool" where
  "bound_pair_ok db T mb \<longleftrightarrow>
     mb_type_id mb = T
     \<and> (\<exists>anchor. types_entry_by_id db T = Return anchor
            \<and> \<not> (t_class anchor = ''record'' \<and> t_union anchor))
     \<and> (\<exists>f \<in> set (funcs db). \<exists>b1 \<in> set (f_derefs f). \<exists>b2 \<in> set (f_derefs f).
            d_kind b1 = ''member'' \<and> d_kind b2 = ''member''
            \<and> py_last (d_type b1) = Return T \<and> py_last (d_type b2) = Return T
            \<and> py_last (d_member b1) = Return (binding_member mb)
            \<and> py_last (d_member b2) = Return (bound_member mb))"

definition bounds_ok :: "ftdb \<Rightarrow> (nat \<times> MemberBounds list) list \<Rightarrow> bool" where
  "bounds_ok db res \<longleftrightarrow> (\<forall>(T, s) \<in> set res. \<forall>mb \<in> set s. bound_pair_ok db T mb)"

text \<open>A chain of pairs (function, position of the command argument) in which every pair
  is among the forwarded ioctls of the pair before it.\<close>

fun forward_chain :: "ftdb \<Rightarrow> (nat \<times> nat) list \<Rightarrow> bool" where
  "forward_chain db [] = True"
| "forward_chain db [p] = True"
| "forward_chain db (p # q # ps) =
     ((case get_forwarded_ioctls db (fst p) of
         Raise _ \<Rightarrow> False
       | Return candidates \<Rightarrow> q \<in> set candidates)
      \<and> forward_chain db (q # ps))"

text \<open>A function of the database in which the first offsetref of a deref that is not a
  member expression, when its kind is \<open>member\<close>, names a deref of kind \<open>member\<close>.\<close>

definition member_refs_ok :: "ftdb_func \<Rightarrow> bool" where
  "member_refs_ok db_func =
     list_all (\<lambda>d. case py_nth (d_offsetrefs d) 0 of
                      Raise _ \<Rightarrow> True
                    | Return r \<Rightarrow>
                        d_kind d \<noteq> ''member'' \<and> or_kind r = ''member'' \<longrightarrow>
                          (case py_nth (f_derefs db_func) (or_id r) of
                             Raise _ \<Rightarrow> True
                           | Return d' \<Rightarrow> d_kind d' = ''member''))
              (f_derefs db_func)"
definition db_one_fops :: ftdb where
  "db_one_fops =
     \<lparr> types = [\<lparr> t_id = 7, t_str = ''file_operations'', t_class = ''record'', t_size = 64,
                  t_refs = [], t_refnames = [''unlocked_ioctl''], t_values = [],
                  t_union = False \<rparr>],
       funcs = [], fops_instances = [] \<rparr>"


section \<open>Example inputs\<close>

text \<open>An environment in which every set is iterated in the order in which it was
  filled, and the search for \<open>sizeof\<close> knows the texts of the examples. Every size in
  the examples is below \<open>2 ^ 53\<close>, so \<open>float_quotient\<close> is never consulted.\<close>

definition env0 :: py_env where
  "env0 = \<lparr> re_search_sizeof =
              (\<lambda>s. if s = ''_IOW(0x12, 1, sizeof(struct node))'' then Some ''struct node''
                    else None),
            order_commands = remdups, order_ids = remdups, order_named = remdups,
            order_bounds = remdups, today = ''2024-01-01'',
            path_join = (\<lambda>a b. a @ ''/'' @ b),
            float_quotient = (\<lambda>a b. a div b) \<rparr>"

definition fop_my :: Fops where
  "fop_my = Fops_init ''my_fops'' 42"

text \<open>Three records: \<open>r1 { struct t *t; }\<close>, \<open>t { struct r1 *a; struct r2 *b; }\<close> and
  \<open>r2 { struct t *t; }\<close>, with their pointer types.\<close>

definition mk_type :: "nat \<Rightarrow> string \<Rightarrow> string \<Rightarrow> nat \<Rightarrow> nat list \<Rightarrow> string list \<Rightarrow> ftdb_type" where
  "mk_type i s c sz rs rns =
     \<lparr> t_id = i, t_str = s, t_class = c, t_size = sz, t_refs = rs, t_refnames = rns,
       t_values = [], t_union = False \<rparr>"

definition db_two_roots :: ftdb where
  "db_two_roots =
     \<lparr> types = [mk_type 1 ''r1'' ''record'' 64 [11] [''t''],
                 mk_type 2 ''t'' ''record'' 128 [12, 13] [''a'', ''b''],
                 mk_type 3 ''r2'' ''record'' 64 [11] [''t''],
                 mk_type 11 ''t *'' ''pointer'' 64 [2] [],
                 mk_type 12 ''r1 *'' ''pointer'' 64 [1] [],
                 mk_type 13 ''r2 *'' ''pointer'' 64 [3] []],
       funcs = [], fops_instances = [] \<rparr>"

definition fop_two_roots :: Fops where
  "fop_two_roots = (Fops_init ''two'' 42) \<lparr> commands := Some [(''A'', 1, 1), (''B'', 2, 3)] \<rparr>"

text \<open>The dictionary that an analysis returned.\<close>

definition the_cycles ::
  "(nat \<times> PointerCycle list) list res option \<Rightarrow> (nat \<times> PointerCycle list) list" where
  "the_cycles r = (case r of Some (Return c) \<Rightarrow> c | _ \<Rightarrow> [])"

text \<open>\<open>struct node { struct node *next; int x; }\<close> as a command root.\<close>

definition db_node :: ftdb where
  "db_node =
     \<lparr> types = [mk_type 1 ''node'' ''record'' 128 [2, 3] [''next'', ''x''],
                 mk_type 2 ''node *'' ''pointer'' 64 [1] [],
                 mk_type 3 ''int'' ''builtin'' 32 [] []],
       funcs = [], fops_instances = [] \<rparr>"

definition fop_node :: Fops where
  "fop_node = (Fops_init ''node_fops'' 42) \<lparr> commands := Some [(''NODE_CMD'', 1, 1)] \<rparr>"

definition g_node :: Generator where
  "g_node = \<lparr> generated_consts = [], generated_types = [(1, [''node''])] \<rparr>"

text \<open>
  \<open>struct s { u8 *buf; u32 len; }\<close>; the function 50 calls
  \<open>copy_from_user(dst, s->buf, s->len)\<close>, the handler 42 only forwards to 50, and the
  function 43 calls \<open>copy_from_user(s->buf, src, s->buf)\<close>.
\<close>

definition mk_deref :: "string \<Rightarrow> (string \<times> nat) list \<Rightarrow> nat list \<Rightarrow> nat list \<Rightarrow> deref" where
  "mk_deref k ors tys ms =
     \<lparr> d_kind = k, d_offsetrefs = map (\<lambda>(k', i). \<lparr> or_kind = k', or_id = i \<rparr>) ors,
       d_type = tys, d_member = ms \<rparr>"

definition mk_func :: "nat \<Rightarrow> string \<Rightarrow> nat list \<Rightarrow> nat list list \<Rightarrow> deref list \<Rightarrow> ftdb_func" where
  "mk_func i n cs ci ds =
     \<lparr> f_id = i, f_name = n, f_locals = [''file'', ''cmd'', ''arg''], f_switches = [],
       f_callrefs = [], f_calls = cs, f_call_info = ci, f_derefs = ds \<rparr>"

definition s_derefs :: "deref list" where
  "s_derefs = [mk_deref ''parm'' [(''local'', 0)] [] [],
               mk_deref ''parm'' [(''member'', 3)] [] [],
               mk_deref ''parm'' [(''member'', 4)] [] [],
               mk_deref ''member'' [(''parm'', 2)] [20] [0],
               mk_deref ''member'' [(''parm'', 2)] [20] [1]]"

definition db_bounds :: ftdb where
  "db_bounds =
     \<lparr> types = [mk_type 20 ''s'' ''record'' 128 [21, 22] [''buf'', ''len''],
                 mk_type 21 ''u8 *'' ''pointer'' 64 [23] [],
                 mk_type 22 ''u32'' ''builtin'' 32 [] [],
                 mk_type 23 ''u8'' ''builtin'' 8 [] []],
       funcs = [mk_func 42 ''wrapper_ioctl'' [50] [[]] [],
                mk_func 43 ''odd_ioctl'' [60] [[1, 0, 1]] s_derefs,
                mk_func 50 ''real_ioctl'' [60] [[0, 1, 2]] s_derefs,
                mk_func 60 ''copy_from_user'' [] [] []],
       fops_instances = [] \<rparr>"

text \<open>
  A handler that switches on its command, copies \<open>s->len\<close> bytes from \<open>s->buf\<close> and
  calls itself with the same arguments: the call relation is cyclic.
\<close>

definition f_cyclic :: ftdb_func where
  "f_cyclic =
     \<lparr> f_id = 70, f_name = ''loop_ioctl'', f_locals = [''file'', ''cmd'', ''arg''],
       f_switches = [\<lparr> sw_condition = ''cmd'', sw_cases = [] \<rparr>],
       f_callrefs = [[\<lparr> cr_type = ''parm'', cr_id = 0, cr_pos = 0 \<rparr>,
                      \<lparr> cr_type = ''parm'', cr_id = 1, cr_pos = 1 \<rparr>,
                      \<lparr> cr_type = ''parm'', cr_id = 2, cr_pos = 2 \<rparr>],
                     []],
       f_calls = [70, 60], f_call_info = [[], [0, 1, 2]], f_derefs = s_derefs \<rparr>"

definition db_cyclic :: ftdb where
  "db_cyclic =
     \<lparr> types = [mk_type 20 ''s'' ''record'' 128 [21, 22] [''buf'', ''len''],
                 mk_type 21 ''u8 *'' ''pointer'' 64 [23] [],
                 mk_type 22 ''u32'' ''builtin'' 32 [] [],
                 mk_type 23 ''u8'' ''builtin'' 8 [] []],
       funcs = [f_cyclic, mk_func 60 ''copy_from_user'' [] [] []],
       fops_instances = [] \<rparr>"

text \<open>
  A function whose only deref is a parameter with a first offsetref of kind \<open>member\<close>
  that names this same deref, and which passes it to \<open>copy_from_user\<close>.
\<close>

definition d_loop :: deref where
  "d_loop = mk_deref ''parm'' [(''member'', 0)] [] []"

definition f_loop :: ftdb_func where
  "f_loop = mk_func 71 ''spin_ioctl'' [60] [[0, 0, 0]] [d_loop]"

definition db_loop :: ftdb where
  "db_loop = \<lparr> types = [], funcs = [f_loop, mk_func 60 ''copy_from_user'' [] [] []],
               fops_instances = [] \<rparr>"
section \<open>Construction of the collector\<close>

lemma get_fops_types_raise:
  "(\<exists>e. get_fops_types db = Raise e) \<longleftrightarrow>
   filter (\<lambda>x. t_str x \<in> set FILE_OPERATIONS \<and> t_class x \<noteq> ''record_forward'') (types db) = []"
  by (simp add: get_fops_types_def Let_def)

text \<open>
  C8. Constructing the collector raises if and only if the database has no type entry
  named \<open>file_operations\<close>, \<open>proc_ops\<close> or \<open>uart_ops\<close> whose class is not
  \<open>record_forward\<close>; the exception is the AttributeError of \<open>get_fops_types\<close>, and
  with at least one such entry the constructor returns a collector.
\<close>

theorem FopsCollector_init_raises_iff:
  "((\<exists>e. FopsCollector_init db = Raise e) \<longleftrightarrow>
      \<not> (\<exists>x \<in> set (types db). t_str x \<in> set FILE_OPERATIONS \<and> t_class x \<noteq> ''record_forward''))
   \<and> ((\<exists>e. FopsCollector_init db = Raise e) \<longrightarrow> FopsCollector_init db = Raise AttributeError)
   \<and> ((\<exists>x \<in> set (types db). t_str x \<in> set FILE_OPERATIONS \<and> t_class x \<noteq> ''record_forward'')
        \<longrightarrow> (\<exists>c. FopsCollector_init db = Return c))"
proof -
  let ?sel = "filter (\<lambda>x. t_str x \<in> set FILE_OPERATIONS \<and> t_class x \<noteq> ''record_forward'') (types db)"
  have sel: "?sel = [] \<longleftrightarrow>
      \<not> (\<exists>x \<in> set (types db). t_str x \<in> set FILE_OPERATIONS \<and> t_class x \<noteq> ''record_forward'')"
    by (auto simp: filter_empty_conv)
  show ?thesis
  proof (cases "?sel = []")
    case True
    then have "FopsCollector_init db = Raise AttributeError"
      by (simp add: FopsCollector_init_def get_fops_types_def Let_def)
    with True sel show ?thesis by simp
  next
    case False
    then have "\<exists>c. FopsCollector_init db = Return c"
      by (simp add: FopsCollector_init_def get_fops_types_def Let_def)
    with False sel show ?thesis by auto
  qed
qed

theorem FopsCollector_init_raises_iff_witness:
  "(\<exists>x \<in> set (types db_one_fops). t_str x \<in> set FILE_OPERATIONS \<and> t_class x \<noteq> ''record_forward'')
   \<and> (\<exists>c. FopsCollector_init db_one_fops = Return c)
   \<and> \<not> (\<exists>e. FopsCollector_init db_one_fops = Raise e)"
proof -
  have h: "\<exists>x \<in> set (types db_one_fops). t_str x \<in> set FILE_OPERATIONS \<and> t_class x \<noteq> ''record_forward''"
    by (simp add: db_one_fops_def FILE_OPERATIONS_def)
  from FopsCollector_init_raises_iff [of db_one_fops] h show ?thesis by blast
qed

section \<open>The status of IoctlAnalysisPass\<close>

lemma GenerationDriver_init_passes:
  "GenerationDriver_init db out arch = Return drv \<Longrightarrow>
   \<exists>bp. passes drv = [(IoctlAnalysis, True), (TypeAnalysis, True), (PointerCycles, False),
                       (PointerBounds bp, False)]"
  by (auto simp: GenerationDriver_init_def split: res.splits)

text \<open>
  C7. When \<open>IoctlAnalysisPass.process\<close> returns, it has stored the harvested commands
  of \<open>fops.syscall_id\<close> and its result is true exactly when they are not empty; when
  the result is false, the driver discards the handler: no pass runs after it and no
  file is written.
\<close>

theorem IoctlAnalysisPass_process_status:
  assumes "IoctlAnalysisPass_process env db fop = Return (fop', b)"
    and "GenerationDriver_init db out arch = Return drv"
  shows "\<exists>cmds. analyze_ioctl_commands env db (syscall_id fop) = Return cmds
           \<and> commands fop' = Some cmds \<and> (b \<longleftrightarrow> cmds \<noteq> [])
           \<and> (\<not> b \<longrightarrow> driver_generate_description n env db drv files fop = Some Discarded)"
proof -
  from assms(1) obtain cmds where
    c: "analyze_ioctl_commands env db (syscall_id fop) = Return cmds"
    and f: "fop' = fop \<lparr> commands := Some cmds \<rparr>" and b: "b = (length cmds > 0)"
    by (auto simp: IoctlAnalysisPass_process_def split: res.splits)
  from GenerationDriver_init_passes [OF assms(2)] obtain rest where
    p: "passes drv = (IoctlAnalysis, True) # rest" by auto
  have "\<not> b \<Longrightarrow> driver_generate_description n env db drv files fop = Some Discarded"
    using assms(1) p by (simp add: driver_generate_description_def process_def)
  with c f b show ?thesis by auto
qed

theorem IoctlAnalysisPass_process_status_witness:
  "\<exists>fop' drv. IoctlAnalysisPass_process env0 db_one_fops fop_my = Return (fop', False)
     \<and> GenerationDriver_init db_one_fops ''out'' ''arm64'' = Return drv
     \<and> commands fop' = Some []
     \<and> driver_generate_description 8 env0 db_one_fops drv [] fop_my = Some Discarded"
proof -
  have r: "recursively_pick_ioctl_with_switchcase db_one_fops 42 (Suc 0) (Suc 0) 3 = Return []"
    by (simp add: recursively_pick_ioctl_with_switchcase.simps funcs_entry_by_id_def
        db_one_fops_def)
  have p: "IoctlAnalysisPass_process env0 db_one_fops fop_my
             = Return (fop_my \<lparr> commands := Some [] \<rparr>, False)"
    by (simp add: IoctlAnalysisPass_process_def analyze_ioctl_commands_def
        analyze_switch_cases_def r fop_my_def Fops_init_def analyze_ifs_def pyset_union_def
        env0_def)
  obtain drv where d: "GenerationDriver_init db_one_fops ''out'' ''arm64'' = Return drv"
    using FopsCollector_init_raises_iff_witness
    by (auto simp: GenerationDriver_init_def split: res.splits)
  from IoctlAnalysisPass_process_status [OF p d, of 8 "[]"] p d show ?thesis by auto
qed

section \<open>Dictionaries\<close>

lemma map_of_fold_update:
  "map_of (fold (\<lambda>(k, v) d. AList.update k v d) b a) = map_of a ++ map_of (rev b)"
proof (induction b arbitrary: a)
  case Nil
  show ?case by simp
next
  case (Cons p b)
  obtain k v where p: "p = (k, v)" by (cases p)
  show ?case
    by (auto simp: p Cons.IH update_conv' map_add_def fun_eq_iff split: option.splits)
qed

lemma map_of_rev_distinct: "distinct (map fst xs) \<Longrightarrow> map_of (rev xs) = map_of xs"
  by (rule map_of_inject_set [THEN iffD2]) (auto simp: rev_map [symmetric])

lemma map_of_dict_merge:
  "distinct (map fst b) \<Longrightarrow> map_of (dict_merge a b) = map_of a ++ map_of b"
  by (simp add: dict_merge_def map_of_fold_update map_of_rev_distinct)

lemma distinct_dict_merge:
  "distinct (map fst a) \<Longrightarrow> distinct (map fst (dict_merge a b))"
proof -
  have "distinct (map fst a) \<Longrightarrow> distinct (map fst (fold (\<lambda>(k, v) d. AList.update k v d) b a))" for a
    by (induction b arbitrary: a) (auto simp: distinct_update)
  then show "distinct (map fst a) \<Longrightarrow> distinct (map fst (dict_merge a b))"
    by (simp add: dict_merge_def)
qed

lemma distinct_add_cycle:
  "distinct (map fst c) \<Longrightarrow> distinct (map fst (add_cycle c t pc))"
  by (auto simp: add_cycle_def distinct_update split: option.splits)

lemma distinct_record_pointer_cycles:
  "record_pointer_cycles db t tr refs is c = Some (Return c') \<Longrightarrow> distinct (map fst c)
   \<Longrightarrow> distinct (map fst c')"
  by (induction "is" arbitrary: c)
     (auto simp: distinct_add_cycle split: res.splits option.splits if_splits)

lemma distinct_analyze_pointer_cycles_rec:
  shows "analyze_pointer_cycles_rec n db t tr = Some (Return (c, tr')) \<Longrightarrow> distinct (map fst c)"
    and "analyze_pointer_cycles_refs n db refs c0 tr0 = Some (Return (c1, tr1)) \<Longrightarrow>
        distinct (map fst c0) \<Longrightarrow> distinct (map fst c1)"
proof (induction n db t tr and n db refs c0 tr0 arbitrary: c tr' and c1 tr1
    rule: analyze_pointer_cycles_rec_analyze_pointer_cycles_refs.induct)
  case (1 db type_id traversed)
  then show ?case by simp
next
  case (2 n db type_id traversed)
  show ?case
    using 2 distinct_record_pointer_cycles [of db type_id traversed _ _ "[]"]
    by (auto split: res.splits option.splits if_splits)
next
  case (3 n db cycles traversed)
  then show ?case by simp
next
  case (4 n db ref refs cycles traversed)
  show ?case
    using 4 by (auto simp: distinct_dict_merge split: res.splits option.splits if_splits)
qed

section \<open>The merge of pointer cycles over the command roots\<close>

lemma distinct_analyze_pointer_cycles:
  "analyze_pointer_cycles n db r = Some (Return c) \<Longrightarrow> distinct (map fst c)"
  by (auto simp: analyze_pointer_cycles_def distinct_analyze_pointer_cycles_rec(1)
      split: res.splits option.splits)

lemma merge_pointer_cycles_append:
  "merge_pointer_cycles n db (xs @ ys) acc = Some (Return pc) \<Longrightarrow>
   \<exists>acc'. merge_pointer_cycles n db xs acc = Some (Return acc')
          \<and> merge_pointer_cycles n db ys acc' = Some (Return pc)"
  by (induction xs arbitrary: acc) (auto split: res.splits option.splits)

lemma merge_pointer_cycles_untouched:
  "merge_pointer_cycles n db ys acc = Some (Return pc) \<Longrightarrow>
   (\<forall>cmd \<in> set ys. \<forall>c. analyze_pointer_cycles n db (snd (snd cmd)) = Some (Return c)
        \<longrightarrow> map_of c T = None) \<Longrightarrow>
   map_of pc T = map_of acc T"
proof (induction ys arbitrary: acc)
  case Nil
  then show ?case by simp
next
  case (Cons cmd ys)
  obtain l v r where cmd: "cmd = (l, v, r)" by (cases cmd)
  from Cons.prems(1) obtain c where
    c: "analyze_pointer_cycles n db r = Some (Return c)"
    and m: "merge_pointer_cycles n db ys (dict_merge acc c) = Some (Return pc)"
    by (auto simp: cmd split: res.splits option.splits)
  from Cons.prems(2) c have none: "map_of c T = None" by (simp add: cmd)
  have "map_of pc T = map_of (dict_merge acc c) T"
    using Cons.IH [OF m] Cons.prems(2) by simp
  also have "\<dots> = map_of acc T"
    using none by (simp add: map_of_dict_merge distinct_analyze_pointer_cycles [OF c] map_add_def)
  finally show ?case .
qed

text \<open>
  C10, as the code has it. \<open>PointerCyclesPass.process\<close> merges the results of the
  command roots, in the iteration order of \<open>commands\<close>, with a dictionary merge that
  replaces. For a type id \<open>T\<close>, the list stored in \<open>pointer_cycles\<close> is exactly the
  list that the last root with entries for \<open>T\<close> produced; the entries that earlier
  roots produced for \<open>T\<close> are gone, they are not appended to. Inside the analysis of
  one root the same merge joins the results of the branches, but there it never
  replaces anything (see the last section).
\<close>

theorem PointerCyclesPass_process_later_root_wins:
  assumes "PointerCyclesPass_process n db fop = Some (Return (fop', b))"
    and "commands fop = Some (xs @ (l, v, r) # ys)"
    and "analyze_pointer_cycles n db r = Some (Return c)"
    and "map_of c T = Some entries"
    and "\<forall>cmd \<in> set ys. \<forall>c'. analyze_pointer_cycles n db (snd (snd cmd)) = Some (Return c')
           \<longrightarrow> map_of c' T = None"
  shows "\<exists>pc. pointer_cycles fop' = Some pc \<and> map_of pc T = Some entries"
proof -
  from assms(1,2) obtain pc where
    m: "merge_pointer_cycles n db (xs @ (l, v, r) # ys) [] = Some (Return pc)"
    and f: "pointer_cycles fop' = Some pc"
    by (auto simp: PointerCyclesPass_process_def split: res.splits option.splits)
  from merge_pointer_cycles_append [OF m] obtain acc where
    m2: "merge_pointer_cycles n db ((l, v, r) # ys) acc = Some (Return pc)" by blast
  with assms(3) have m3: "merge_pointer_cycles n db ys (dict_merge acc c) = Some (Return pc)"
    by simp
  have "map_of pc T = map_of (dict_merge acc c) T"
    by (rule merge_pointer_cycles_untouched [OF m3 assms(5)])
  also have "\<dots> = Some entries"
    using assms(4)
    by (simp add: map_of_dict_merge distinct_analyze_pointer_cycles [OF assms(3)])
  finally show ?thesis using f by simp
qed

lemma two_roots_first:
  "analyze_pointer_cycles 8 db_two_roots 1
     = Some (Return [(2, [\<lparr>cycled_id = 1, member_position = 0\<rparr>]),
                     (3, [\<lparr>cycled_id = 2, member_position = 0\<rparr>])])"
  by code_simp

lemma two_roots_second:
  "analyze_pointer_cycles 8 db_two_roots 3
     = Some (Return [(2, [\<lparr>cycled_id = 3, member_position = 1\<rparr>]),
                     (1, [\<lparr>cycled_id = 2, member_position = 0\<rparr>])])"
  by code_simp

lemma two_roots_process:
  "PointerCyclesPass_process 8 db_two_roots fop_two_roots
     = Some (Return (fop_two_roots \<lparr> pointer_cycles :=
          Some [(2, [\<lparr>cycled_id = 3, member_position = 1\<rparr>]),
                (3, [\<lparr>cycled_id = 2, member_position = 0\<rparr>]),
                (1, [\<lparr>cycled_id = 2, member_position = 0\<rparr>])] \<rparr>, True))"
  by code_simp

theorem PointerCyclesPass_process_later_root_wins_witness:
  "\<exists>fop' pc. PointerCyclesPass_process 8 db_two_roots fop_two_roots = Some (Return (fop', True))
     \<and> commands fop_two_roots = Some ([(''A'', 1, 1)] @ (''B'', 2, 3) # [])
     \<and> map_of (the_cycles (analyze_pointer_cycles 8 db_two_roots 1)) 2
          = Some [\<lparr>cycled_id = 1, member_position = 0\<rparr>]
     \<and> map_of (the_cycles (analyze_pointer_cycles 8 db_two_roots 3)) 2
          = Some [\<lparr>cycled_id = 3, member_position = 1\<rparr>]
     \<and> pointer_cycles fop' = Some pc
     \<and> map_of pc 2 = Some [\<lparr>cycled_id = 3, member_position = 1\<rparr>]"
proof -
  have c: "commands fop_two_roots = Some ([(''A'', 1, 1)] @ (''B'', 2, 3) # [])"
    by (simp add: fop_two_roots_def Fops_init_def)
  have e: "map_of [(2, [\<lparr>cycled_id = 3, member_position = 1\<rparr>]),
                   (1::nat, [\<lparr>cycled_id = 2, member_position = 0\<rparr>])] 2
             = Some [\<lparr>cycled_id = 3, member_position = 1\<rparr>]"
    by simp
  have f1: "map_of (the_cycles (analyze_pointer_cycles 8 db_two_roots 1)) 2
              = Some [\<lparr>cycled_id = 1, member_position = 0\<rparr>]"
    by (subst two_roots_first) (simp add: the_cycles_def)
  have f2: "map_of (the_cycles (analyze_pointer_cycles 8 db_two_roots 3)) 2
              = Some [\<lparr>cycled_id = 3, member_position = 1\<rparr>]"
    by (subst two_roots_second) (simp add: the_cycles_def)
  have n: "\<forall>cmd \<in> set ([] :: command list).
             \<forall>c'. analyze_pointer_cycles 8 db_two_roots (snd (snd cmd)) = Some (Return c')
               \<longrightarrow> map_of c' 2 = None"
    by simp
  from PointerCyclesPass_process_later_root_wins
         [OF two_roots_process c two_roots_second e n]
  obtain pc where "pointer_cycles (fop_two_roots \<lparr> pointer_cycles :=
          Some [(2, [\<lparr>cycled_id = 3, member_position = 1\<rparr>]),
                (3, [\<lparr>cycled_id = 2, member_position = 0\<rparr>]),
                (1, [\<lparr>cycled_id = 2, member_position = 0\<rparr>])] \<rparr>) = Some pc"
    and "map_of pc 2 = Some [\<lparr>cycled_id = 3, member_position = 1\<rparr>]"
    by blast
  with two_roots_process c f1 f2 show ?thesis by blast
qed

section \<open>A record that points to itself\<close>

text \<open>
  C2. For \<open>struct node { struct node *next; int x; }\<close> as a command root the claim
  expects the entry (target \<open>node\<close>, field 0) in \<open>pointer_cycles[node]\<close> and the field
  \<open>next\<close> rendered as \<open>ptr[inout, node, opt]\<close>. The pass looks for the pointee in
  \<open>traversed\<close> before it adds the current type to it, so on this input it records
  nothing, and the generator, run on the result, renders \<open>ptr[inout, node]\<close>.
\<close>

theorem self_pointer_cycle_not_recorded:
  "PointerCyclesPass_process 8 db_node fop_node
     = Some (Return (fop_node \<lparr> pointer_cycles := Some [] \<rparr>, True))
   \<and> assign_names db_node Generator_init [1, 2]
     = Some (Return ([Some (1, ''node''), None], g_node))
   \<and> generate_record_definition 8 env0 db_node g_node [] [] 1 ''node'' False
     = Some (Return (''node {'' @ nl @ tab @ ''next ptr[inout, node]'' @ nl
                       @ tab @ ''x int32'' @ nl @ ''}'' @ nl @ nl))"
  by code_simp

section \<open>The dependencies of the command roots\<close>

lemma types_entry_by_id_id: "types_entry_by_id db i = Return e \<Longrightarrow> t_id e = i"
  by (auto simp: types_entry_by_id_def find_Some_iff split: option.splits)

lemma detypedef_loop_result_aux:
  assumes "detypedef_loop db0 e0 = Some r0"
  shows "\<forall>e'. r0 = Return e' \<longrightarrow> types_entry_by_id db0 (t_id e0) = Return e0 \<longrightarrow>
     t_class e' \<noteq> ''typedef'' \<and> types_entry_by_id db0 (t_id e') = Return e'"
proof (rule detypedef_loop.raw_induct [where P = "\<lambda>db e r.
     \<forall>e'. r = Return e' \<longrightarrow> types_entry_by_id db (t_id e) = Return e \<longrightarrow>
       t_class e' \<noteq> ''typedef'' \<and> types_entry_by_id db (t_id e') = Return e'", OF _ assms])
  fix f :: "ftdb \<Rightarrow> ftdb_type \<Rightarrow> ftdb_type res option" and db e r
  assume IH: "\<And>db' x y. f db' x = Some y \<Longrightarrow>
     \<forall>e'. y = Return e' \<longrightarrow> types_entry_by_id db' (t_id x) = Return x \<longrightarrow>
       t_class e' \<noteq> ''typedef'' \<and> types_entry_by_id db' (t_id e') = Return e'"
  assume eq: "(if t_class e = ''typedef'' then
        (if t_refs e = [] then Some (Raise IndexError)
         else (case types_entry_by_id db (hd (t_refs e)) of
                 Return t \<Rightarrow> f db t
               | Raise err \<Rightarrow> Some (Raise err)))
      else Some (Return e)) = Some r"
  show "\<forall>e'. r = Return e' \<longrightarrow> types_entry_by_id db (t_id e) = Return e \<longrightarrow>
       t_class e' \<noteq> ''typedef'' \<and> types_entry_by_id db (t_id e') = Return e'"
  proof (intro allI impI)
    fix e' assume r: "r = Return e'" and e: "types_entry_by_id db (t_id e) = Return e"
    show "t_class e' \<noteq> ''typedef'' \<and> types_entry_by_id db (t_id e') = Return e'"
    proof (cases "t_class e = ''typedef''")
      case False
      with eq r e show ?thesis by simp
    next
      case True
      with eq r obtain x where x: "types_entry_by_id db (hd (t_refs e)) = Return x"
        and fx: "f db x = Some (Return e')"
        by (auto split: if_splits res.splits)
      from x have "types_entry_by_id db (t_id x) = Return x"
        by (simp add: types_entry_by_id_id)
      with IH [OF fx] show ?thesis by simp
    qed
  qed
qed

lemma detypedef_loop_result:
  assumes "detypedef_loop db e = Some (Return e')"
    and "types_entry_by_id db (t_id e) = Return e"
  shows "t_class e' \<noteq> ''typedef'' \<and> types_entry_by_id db (t_id e') = Return e'"
  using detypedef_loop_result_aux [OF assms(1)] assms(2) by simp

lemma detypedef_result:
  "detypedef db i = Some (Return t) \<Longrightarrow>
   \<exists>e. types_entry_by_id db t = Return e \<and> t_class e \<noteq> ''typedef''"
  by (auto simp: detypedef_def split: res.splits option.splits
      dest!: detypedef_loop_result dest: types_entry_by_id_id)

lemma detypedef_concrete:
  "types_entry_by_id db d = Return e \<Longrightarrow> t_class e \<noteq> ''typedef'' \<Longrightarrow>
   detypedef db d = Some (Return d)"
  by (auto simp: detypedef_def detypedef_loop.simps dest: types_entry_by_id_id)

lemma closed_at_mono: "closed_at db found d \<Longrightarrow> set found \<subseteq> set found' \<Longrightarrow> closed_at db found' d"
  unfolding closed_at_def by blast

lemma set_pyset_add [simp]: "set (pyset_add xs x) = insert x (set xs)"
  by (auto simp: pyset_add_def)

lemma find_unique_type_dependencies_inv:
  shows "find_unique_type_dependencies_rec n db t found = Some (Return found') \<Longrightarrow>
           set found \<subseteq> set found' \<and> t \<in> set found'
           \<and> (\<forall>d \<in> set found' - set found. closed_at db found' d
                 \<and> (d = t \<or> (\<exists>r. detypedef db r = Some (Return d))))"
    and "find_unique_type_dependencies_refs n db refs found = Some (Return found') \<Longrightarrow>
           set found \<subseteq> set found'
           \<and> (\<forall>r \<in> set refs. \<exists>t. detypedef db r = Some (Return t) \<and> t \<in> set found')
           \<and> (\<forall>d \<in> set found' - set found. closed_at db found' d
                 \<and> (\<exists>r. detypedef db r = Some (Return d)))"
proof (induction n db t found and n db refs found arbitrary: found' and found'
    rule: find_unique_type_dependencies_rec_find_unique_type_dependencies_refs.induct)
  case (1 db type_id found)
  then show ?case by simp
next
  case (2 n db type_id found)
  show ?case
  proof (cases "type_id \<in> set found")
    case True
    with 2 show ?thesis by auto
  next
    case False
    with "2.prems" obtain e where e: "types_entry_by_id db type_id = Return e"
      by (auto split: res.splits)
    show ?thesis
    proof (cases "t_class e = ''enum''")
      case True
      with "2.prems" False e have "found' = pyset_add found type_id" by simp
      with e True show ?thesis by (auto simp: closed_at_def)
    next
      case ne: False
      with "2.prems" False e have
        r: "find_unique_type_dependencies_refs n db (t_refs e) (pyset_add found type_id)
              = Some (Return found')" by simp
      note ih = "2.IH" [OF False e ne r]
      have "closed_at db found' type_id"
        using ih e by (auto simp: closed_at_def)
      with ih show ?thesis by auto
    qed
  qed
next
  case (3 n db found)
  then show ?case by simp
next
  case (4 n db ref refs found)
  from "4.prems" obtain t found1 where
    t: "detypedef db ref = Some (Return t)"
    and f1: "find_unique_type_dependencies_rec n db t found = Some (Return found1)"
    and f2: "find_unique_type_dependencies_refs n db refs found1 = Some (Return found')"
    by (auto split: res.splits option.splits)
  note ih1 = "4.IH"(1) [OF t refl f1]
  note ih2 = "4.IH"(2) [OF t refl f1 refl f2]
  have sub: "set found \<subseteq> set found'" using ih1 ih2 by blast
  have refs: "\<forall>r \<in> set (ref # refs). \<exists>t. detypedef db r = Some (Return t) \<and> t \<in> set found'"
    using ih1 ih2 t by auto
  have new: "closed_at db found' d \<and> (\<exists>r. detypedef db r = Some (Return d))"
    if d: "d \<in> set found' - set found" for d
  proof (cases "d \<in> set found1")
    case True
    with d ih1 have "closed_at db found1 d" and "d = t \<or> (\<exists>r. detypedef db r = Some (Return d))"
      by auto
    with t ih2 show ?thesis by (auto intro: closed_at_mono)
  next
    case False
    with d ih2 show ?thesis by auto
  qed
  from sub refs new show ?case by blast
qed

lemma set_pyset_union [simp]: "set (pyset_union xs ys) = set xs \<union> set ys"
proof -
  have "set (fold (\<lambda>y acc. pyset_add acc y) ys xs) = set xs \<union> set ys" for xs
    by (induction ys arbitrary: xs) auto
  then show ?thesis by (simp add: pyset_union_def)
qed

lemma find_unique_type_dependencies_closed:
  assumes "find_unique_type_dependencies n db root = Some (Return found)"
  shows "\<forall>d \<in> set found. closed_at db found d
           \<and> (\<exists>e. types_entry_by_id db d = Return e \<and> t_class e \<noteq> ''typedef'')"
proof -
  from assms obtain t where t: "detypedef db root = Some (Return t)"
    and r: "find_unique_type_dependencies_rec n db t [] = Some (Return found)"
    by (auto simp: find_unique_type_dependencies_def split: res.splits option.splits)
  from find_unique_type_dependencies_inv(1) [OF r] t
  have "\<forall>d \<in> set found. closed_at db found d \<and> (\<exists>r. detypedef db r = Some (Return d))"
    by auto
  then show ?thesis by (blast dest: detypedef_result)
qed

lemma all_type_dependencies_set:
  assumes "all_type_dependencies n env db cmds = Some (Return xs)" and "set_order (order_ids env)"
  shows "\<forall>x \<in> set xs. \<exists>found. set found \<subseteq> set xs \<and> x \<in> set found
           \<and> (\<forall>d \<in> set found. closed_at db found d
                 \<and> (\<exists>e. types_entry_by_id db d = Return e \<and> t_class e \<noteq> ''typedef''))"
  using assms(1)
proof (induction cmds arbitrary: xs)
  case Nil
  then show ?case by simp
next
  case (Cons cmd cmds)
  obtain l v r where cmd: "cmd = (l, v, r)" by (cases cmd)
  from Cons.prems obtain found ys where
    f: "find_unique_type_dependencies n db r = Some (Return found)"
    and y: "all_type_dependencies n env db cmds = Some (Return ys)"
    and xs: "xs = order_ids env found @ ys"
    by (auto simp: cmd split: res.splits option.splits)
  have s: "set (order_ids env found) = set found"
    using assms(2) by (simp add: set_order_def)
  show ?case
  proof
    fix x assume "x \<in> set xs"
    then consider "x \<in> set found" | "x \<in> set ys" using xs s by auto
    then show "\<exists>found. set found \<subseteq> set xs \<and> x \<in> set found
           \<and> (\<forall>d \<in> set found. closed_at db found d
                 \<and> (\<exists>e. types_entry_by_id db d = Return e \<and> t_class e \<noteq> ''typedef''))"
    proof cases
      case 1
      with find_unique_type_dependencies_closed [OF f] xs s show ?thesis
        by (intro exI [of _ found]) auto
    next
      case 2
      with Cons.IH [OF y] obtain fd where "set fd \<subseteq> set ys" "x \<in> set fd"
        "\<forall>d \<in> set fd. closed_at db fd d
                 \<and> (\<exists>e. types_entry_by_id db d = Return e \<and> t_class e \<noteq> ''typedef'')"
        by blast
      with xs show ?thesis by (intro exI [of _ fd]) auto
    qed
  qed
qed

lemma filter_contains_fields_set:
  "filter_contains_fields db xs = Some (Return ys) \<Longrightarrow>
   set ys = {x \<in> set xs. contains_fields db x = Some (Return True)}
   \<and> (\<forall>x \<in> set xs. \<exists>b. contains_fields db x = Some (Return b))"
  by (induction xs arbitrary: ys) (auto split: res.splits option.splits if_splits)

lemma contains_fields_concrete:
  "types_entry_by_id db d = Return e \<Longrightarrow> t_class e \<noteq> ''typedef'' \<Longrightarrow>
   contains_fields db d = Some (Return (t_refs e \<noteq> []))"
  by (simp add: contains_fields_def detypedef_concrete)

lemma field_dep_in_found:
  assumes "closed_at db found d" and "field_dep db d t"
  shows "t \<in> set found"
  using assms unfolding closed_at_def field_dep_def by fastforce

lemma reachable_in_found:
  assumes "(field_dep db)\<^sup>+\<^sup>+ d t" and "d \<in> set found"
    and "\<forall>x \<in> set found. closed_at db found x"
  shows "t \<in> set found"
  using assms
proof (induction rule: tranclp_induct)
  case (base y)
  then show ?case by (blast intro: field_dep_in_found)
next
  case (step y z)
  then show ?case by (blast intro: field_dep_in_found)
qed

lemma TypeAnalysisPass_process_deps:
  "TypeAnalysisPass_process n env db fop = Some (Return (fop', b)) \<Longrightarrow>
   \<exists>cmds xs ys. all_type_dependencies n env db cmds = Some (Return xs)
      \<and> filter_contains_fields db xs = Some (Return ys)
      \<and> deps fop' = Some (order_ids env (pyset_union [] ys))"
  unfolding TypeAnalysisPass_process_def Let_def
  by (simp split: res.splits option.splits) fastforce

text \<open>
  C1, as the code has it. After \<open>TypeAnalysisPass.process\<close> every id in \<open>deps\<close> names
  an entry that is not a typedef and has at least one reference, and \<open>deps\<close> is closed
  under field dependence: every type reached from a member of \<open>deps\<close> through the
  references of types that are not enums, each reference taken after \<open>detypedef\<close>, is
  in \<open>deps\<close> when it has references itself. Pointer types are not excluded: the search
  collapses typedefs only, and a pointer has a reference.
\<close>

theorem TypeAnalysisPass_deps_invariant:
  assumes "TypeAnalysisPass_process n env db fop = Some (Return (fop', b))"
    and "set_order (order_ids env)"
  shows "\<exists>ds. deps fop' = Some ds \<and>
     (\<forall>d \<in> set ds.
        (\<exists>e. types_entry_by_id db d = Return e \<and> t_class e \<noteq> ''typedef'' \<and> t_refs e \<noteq> [])
        \<and> (\<forall>t. (field_dep db)\<^sup>+\<^sup>+ d t \<longrightarrow> contains_fields db t = Some (Return True)
                 \<longrightarrow> t \<in> set ds))"
proof -
  from TypeAnalysisPass_process_deps [OF assms(1)] obtain cmds xs ys where
    x: "all_type_dependencies n env db cmds = Some (Return xs)"
    and y: "filter_contains_fields db xs = Some (Return ys)"
    and d: "deps fop' = Some (order_ids env (pyset_union [] ys))"
    by blast
  let ?ds = "order_ids env (pyset_union [] ys)"
  have s: "set ?ds = set ys" using assms(2) by (simp add: set_order_def)
  note ys = filter_contains_fields_set [OF y]
  have "(\<exists>e. types_entry_by_id db d = Return e \<and> t_class e \<noteq> ''typedef'' \<and> t_refs e \<noteq> [])
        \<and> (\<forall>t. (field_dep db)\<^sup>+\<^sup>+ d t \<longrightarrow> contains_fields db t = Some (Return True)
                 \<longrightarrow> t \<in> set ?ds)" if "d \<in> set ?ds" for d
  proof -
    from that s ys have dx: "d \<in> set xs" and cf: "contains_fields db d = Some (Return True)"
      by auto
    from all_type_dependencies_set [OF x assms(2)] dx obtain found where
      f: "set found \<subseteq> set xs" "d \<in> set found"
      and c: "\<forall>x \<in> set found. closed_at db found x
                \<and> (\<exists>e. types_entry_by_id db x = Return e \<and> t_class e \<noteq> ''typedef'')"
      by blast
    from c f(2) obtain e where e: "types_entry_by_id db d = Return e" "t_class e \<noteq> ''typedef''"
      by blast
    with cf have "t_refs e \<noteq> []" by (simp add: contains_fields_concrete)
    moreover have "t \<in> set ?ds"
      if "(field_dep db)\<^sup>+\<^sup>+ d t" "contains_fields db t = Some (Return True)" for t
    proof -
      from c have "\<forall>x \<in> set found. closed_at db found x" by blast
      from reachable_in_found [OF that(1) f(2) this] f(1) have "t \<in> set xs" by blast
      with that(2) ys s show ?thesis by simp
    qed
    ultimately show ?thesis using e by blast
  qed
  with d show ?thesis by blast
qed

lemma set_order_remdups: "set_order remdups"
  by (simp add: set_order_def)

text \<open>
  C1, as stated, fails on \<open>struct node { struct node *next; int x; }\<close>: \<open>deps\<close>
  holds the id 2, whose entry has the class \<open>pointer\<close>.
\<close>

theorem TypeAnalysisPass_deps_pointer_counterexample:
  "TypeAnalysisPass_process 8 env0 db_node fop_node
     = Some (Return (fop_node \<lparr> deps := Some [1, 2] \<rparr>, True))
   \<and> types_entry_by_id db_node 2 = Return (mk_type 2 ''node *'' ''pointer'' 64 [1] [])
   \<and> t_class (mk_type 2 ''node *'' ''pointer'' 64 [1] []) = ''pointer''"
  by code_simp

lemma node_process:
  "TypeAnalysisPass_process 8 env0 db_node fop_node
     = Some (Return (fop_node \<lparr> deps := Some [1, 2] \<rparr>, True))"
  by code_simp

theorem TypeAnalysisPass_deps_invariant_witness:
  "set_order (order_ids env0)
   \<and> TypeAnalysisPass_process 8 env0 db_node fop_node
       = Some (Return (fop_node \<lparr> deps := Some [1, 2] \<rparr>, True))
   \<and> (\<exists>e. types_entry_by_id db_node 1 = Return e \<and> t_class e \<noteq> ''typedef'' \<and> t_refs e \<noteq> [])
   \<and> (\<exists>e. types_entry_by_id db_node 2 = Return e \<and> t_class e \<noteq> ''typedef'' \<and> t_refs e \<noteq> [])"
proof -
  have o: "set_order (order_ids env0)" by (simp add: env0_def set_order_remdups)
  from TypeAnalysisPass_deps_invariant [OF node_process o] obtain ds where
    ds: "deps (fop_node \<lparr> deps := Some [1, 2] \<rparr>) = Some ds"
    and inv: "\<forall>d \<in> set ds.
        (\<exists>e. types_entry_by_id db_node d = Return e \<and> t_class e \<noteq> ''typedef'' \<and> t_refs e \<noteq> [])
        \<and> (\<forall>t. (field_dep db_node)\<^sup>+\<^sup>+ d t \<longrightarrow> contains_fields db_node t = Some (Return True)
                 \<longrightarrow> t \<in> set ds)"
    by blast
  from ds have "ds = [1, 2]" by simp
  with inv have
    "\<exists>e. types_entry_by_id db_node 1 = Return e \<and> t_class e \<noteq> ''typedef'' \<and> t_refs e \<noteq> []"
    "\<exists>e. types_entry_by_id db_node 2 = Return e \<and> t_class e \<noteq> ''typedef'' \<and> t_refs e \<noteq> []"
    by simp_all
  with o node_process show ?thesis by blast
qed

section \<open>Pointer bounds: where the analysis looks\<close>

lemma keys_fold_update_const:
  "fst ` set (fold (\<lambda>g d. AList.update (f_id g) nm d) gs d0) = fst ` set d0 \<union> f_id ` set gs"
  by (induction gs arbitrary: d0) (auto simp: dom_update)

lemma keys_PointerBoundsPass_init:
  "fst ` set (id_to_name (PointerBoundsPass_init db))
     = {f_id g | g. g \<in> set (funcs db) \<and> f_name g \<in> {''copy_from_user'', ''copy_to_user''}}"
  by (auto simp: PointerBoundsPass_init_def BINDING_CALLS_def keys_fold_update_const
      funcs_entry_by_name_def)

lemma find_indexes_of_element_empty:
  "find_indexes_of_element lst x = [] \<longleftrightarrow> x \<notin> set lst"
  by (auto simp: find_indexes_of_element_def filter_empty_conv in_set_conv_nth)

lemma call_indexes_of_empty:
  "call_indexes_of self f = [] \<longleftrightarrow> (\<forall>c \<in> set (f_calls f). c \<notin> fst ` set (id_to_name self))"
  by (auto simp: call_indexes_of_def find_indexes_of_element_empty)

lemma analyze_bounds_no_direct_call:
  assumes "funcs_entry_by_id db fid = Return f" and "call_indexes_of self f = []"
  shows "analyze_bounds self db fid depth max_depth = Some (Return [])"
  using assms by (simp add: analyze_bounds.simps)

lemma keys_dict_merge: "fst ` set (dict_merge a b) = fst ` set a \<union> fst ` set b"
proof -
  have "fst ` set (fold (\<lambda>p d. AList.update (fst p) (snd p) d) b a)
          = fst ` set a \<union> fst ` set b" for a
  proof (induction b arbitrary: a)
    case Nil
    show ?case by simp
  next
    case (Cons p b)
    have "fst ` set (AList.update (fst p) (snd p) a) = insert (fst p) (fst ` set a)"
      by (simp add: dom_update)
    then show ?case by (simp add: Cons.IH)
  qed
  then show ?thesis by (simp add: dict_merge_def split_def)
qed

lemma merge_all_keys:
  "merge_all acc rs = Some (Return out) \<Longrightarrow> k \<in> fst ` set out \<Longrightarrow>
   k \<in> fst ` set acc \<or> (\<exists>d. Some (Return d) \<in> set rs \<and> k \<in> fst ` set d)"
proof (induction acc rs rule: merge_all.induct)
  case (4 acc d rs)
  then show ?case by (auto simp: keys_dict_merge)
qed auto

lemma analyze_bounds_chain:
  "analyze_bounds self db fid depth md = Some (Return res) \<Longrightarrow> T \<in> fst ` set res \<Longrightarrow>
   \<exists>chain. chain \<noteq> [] \<and> hd chain = fid \<and> copy_chain self db chain
      \<and> (\<exists>r. local_bounds self db (last chain) = Some (Return r) \<and> T \<in> fst ` set r)
      \<and> (md = 4 \<longrightarrow> depth + length chain \<le> 5)"
proof (induction self db fid depth md arbitrary: res rule: analyze_bounds.induct)
  case (1 self db func_id depth max_depth)
  from "1.prems" obtain f where f: "funcs_entry_by_id db func_id = Return f"
    by (auto simp: analyze_bounds.simps [of self db func_id] split: res.splits)
  from "1.prems" f have c: "\<not> (depth > max_depth \<or> length (call_indexes_of self f) = 0)"
    by (auto simp: analyze_bounds.simps [of self db func_id] split: if_splits)
  from "1.prems"(1) f c obtain r0 where
    r0: "analyze_calls self db f (call_indexes_of self f) [] = Some (Return r0)"
    and m: "merge_all r0 (map (\<lambda>call. analyze_bounds self db call (depth + 1) 4) (f_calls f))
              = Some (Return res)"
    by (auto simp: analyze_bounds.simps [of self db func_id] split: res.splits option.splits)
  have direct: "calls_user_copy self db func_id"
    using f c by (simp add: calls_user_copy_def)
  have "T \<in> fst ` set r0 \<or> (\<exists>call d. call \<in> set (f_calls f)
          \<and> analyze_bounds self db call (depth + 1) 4 = Some (Return d) \<and> T \<in> fst ` set d)"
  proof -
    from merge_all_keys [OF m "1.prems"(2)] show ?thesis
    proof
      assume "T \<in> fst ` set r0"
      then show ?thesis by blast
    next
      assume "\<exists>d. Some (Return d) \<in> set (map (\<lambda>call. analyze_bounds self db call (depth + 1) 4)
                                            (f_calls f)) \<and> T \<in> fst ` set d"
      then obtain d where
        d: "Some (Return d) \<in> (\<lambda>call. analyze_bounds self db call (depth + 1) 4) ` set (f_calls f)"
        and t: "T \<in> fst ` set d"
        unfolding set_map by blast
      from d obtain call where "call \<in> set (f_calls f)"
        and "Some (Return d) = analyze_bounds self db call (depth + 1) 4"
        by (rule imageE)
      then have "call \<in> set (f_calls f)
          \<and> analyze_bounds self db call (depth + 1) 4 = Some (Return d) \<and> T \<in> fst ` set d"
        using t by (simp only: simp_thms)
      then show ?thesis by blast
    qed
  qed
  then consider "T \<in> fst ` set r0"
    | call d where "call \<in> set (f_calls f)"
        "analyze_bounds self db call (depth + 1) 4 = Some (Return d)" "T \<in> fst ` set d"
    by blast
  then show ?case
  proof cases
    case 1
    have "local_bounds self db func_id = Some (Return r0)"
      using f r0 by (simp add: local_bounds_def)
    with 1 direct c show ?thesis
      by (intro exI [of _ "[func_id]"]) auto
  next
    case 2
    from "1.IH" [OF f c r0 refl 2(1) 2(2) 2(3)] obtain chain where
      ch: "chain \<noteq> []" "hd chain = call" "copy_chain self db chain"
        "\<exists>r. local_bounds self db (last chain) = Some (Return r) \<and> T \<in> fst ` set r"
        "depth + 1 + length chain \<le> 5"
      by auto
    from ch(1,2) obtain rest where rest: "chain = call # rest" by (cases chain) auto
    have "copy_chain self db (func_id # chain)"
      using direct ch(3) 2(1) f by (simp add: rest calls_of_def)
    with ch show ?thesis
      by (intro exI [of _ "func_id # chain"]) auto
  qed
qed

text \<open>
  C9. \<open>analyze_bounds\<close> returns the empty dictionary whenever the function it is called
  on has no direct call to \<open>copy_from_user\<close> or \<open>copy_to_user\<close>, whatever the callees
  are: the recursion into the calls comes after that test. So every type for which a
  pair is returned comes from the end of a chain of calls, starting at the entry
  function, in which every function calls a user-copy function directly.
\<close>

theorem analyze_bounds_only_through_user_copy:
  "(funcs_entry_by_id db fid = Return f
      \<and> (\<forall>g \<in> set (funcs db). f_name g \<in> {''copy_from_user'', ''copy_to_user''}
             \<longrightarrow> f_id g \<notin> set (f_calls f))
     \<longrightarrow> analyze_bounds (PointerBoundsPass_init db) db fid depth max_depth = Some (Return []))
   \<and> (analyze_bounds (PointerBoundsPass_init db) db fid depth max_depth = Some (Return res)
      \<and> T \<in> fst ` set res
     \<longrightarrow> (\<exists>chain. chain \<noteq> [] \<and> hd chain = fid
            \<and> copy_chain (PointerBoundsPass_init db) db chain
            \<and> (\<exists>r. local_bounds (PointerBoundsPass_init db) db (last chain) = Some (Return r)
                   \<and> T \<in> fst ` set r)))"
proof (intro conjI impI)
  assume a: "funcs_entry_by_id db fid = Return f
      \<and> (\<forall>g \<in> set (funcs db). f_name g \<in> {''copy_from_user'', ''copy_to_user''}
             \<longrightarrow> f_id g \<notin> set (f_calls f))"
  then have "\<forall>c \<in> set (f_calls f). c \<notin> fst ` set (id_to_name (PointerBoundsPass_init db))"
    unfolding keys_PointerBoundsPass_init by blast
  then have "call_indexes_of (PointerBoundsPass_init db) f = []"
    by (simp add: call_indexes_of_empty)
  with a show "analyze_bounds (PointerBoundsPass_init db) db fid depth max_depth = Some (Return [])"
    by (simp add: analyze_bounds_no_direct_call)
next
  assume "analyze_bounds (PointerBoundsPass_init db) db fid depth max_depth = Some (Return res)
      \<and> T \<in> fst ` set res"
  then show "\<exists>chain. chain \<noteq> [] \<and> hd chain = fid
            \<and> copy_chain (PointerBoundsPass_init db) db chain
            \<and> (\<exists>r. local_bounds (PointerBoundsPass_init db) db (last chain) = Some (Return r)
                   \<and> T \<in> fst ` set r)"
    using analyze_bounds_chain [of "PointerBoundsPass_init db" db fid depth max_depth res T]
    by blast
qed

lemma db_bounds_42:
  "funcs_entry_by_id db_bounds 42 = Return (mk_func 42 ''wrapper_ioctl'' [50] [[]] [])
   \<and> (\<forall>g \<in> set (funcs db_bounds). f_name g \<in> {''copy_from_user'', ''copy_to_user''}
         \<longrightarrow> f_id g \<notin> set (f_calls (mk_func 42 ''wrapper_ioctl'' [50] [[]] [])))"
  by code_simp

lemma db_bounds_50:
  "analyze_bounds (PointerBoundsPass_init db_bounds) db_bounds 50 1 4
     = Some (Return [(20, [\<lparr>mb_type_id = 20, binding_member = 1, bound_member = 0\<rparr>])])
   \<and> 20 \<in> fst ` set [(20 :: nat, [\<lparr>mb_type_id = 20, binding_member = 1, bound_member = 0\<rparr>])]"
  by code_simp

theorem analyze_bounds_only_through_user_copy_witness:
  "analyze_bounds (PointerBoundsPass_init db_bounds) db_bounds 42 1 4 = Some (Return [])
   \<and> analyze_bounds (PointerBoundsPass_init db_bounds) db_bounds 50 1 4
       = Some (Return [(20, [\<lparr>mb_type_id = 20, binding_member = 1, bound_member = 0\<rparr>])])
   \<and> (\<exists>chain. chain \<noteq> [] \<and> hd chain = 50
          \<and> copy_chain (PointerBoundsPass_init db_bounds) db_bounds chain
          \<and> (\<exists>r. local_bounds (PointerBoundsPass_init db_bounds) db_bounds (last chain)
                     = Some (Return r) \<and> 20 \<in> fst ` set r))"
  using analyze_bounds_only_through_user_copy
          [of db_bounds 42 "mk_func 42 ''wrapper_ioctl'' [50] [[]] []" 1 4]
        analyze_bounds_only_through_user_copy
          [of db_bounds 50 _ 1 4
              "[(20, [\<lparr>mb_type_id = 20, binding_member = 1, bound_member = 0\<rparr>])]" 20]
        db_bounds_42 db_bounds_50
  by blast

section \<open>No replacement inside one root\<close>

lemma keys_add_cycle: "fst ` set (add_cycle c t pc) = insert t (fst ` set c)"
  by (simp add: add_cycle_def dom_update split: option.splits)

lemma record_pointer_cycles_keys:
  "record_pointer_cycles db t tr refs ixs c = Some (Return c') \<Longrightarrow>
   fst ` set c' \<subseteq> insert t (fst ` set c)"
proof (induction ixs arbitrary: c)
  case Nil
  then show ?case by auto
next
  case (Cons i ixs)
  from Cons.prems consider
    "record_pointer_cycles db t tr refs ixs c = Some (Return c')"
    | d where "record_pointer_cycles db t tr refs ixs
                 (add_cycle c t \<lparr> cycled_id = d, member_position = i \<rparr>) = Some (Return c')"
    by (auto split: res.splits option.splits if_splits)
  then show ?case
  proof cases
    case 1
    then show ?thesis by (rule Cons.IH)
  next
    case 2
    from Cons.IH [OF 2] show ?thesis by (simp add: keys_add_cycle)
  qed
qed

lemma keys_new_traversed:
  shows "analyze_pointer_cycles_rec n db t tr = Some (Return (c, tr')) \<Longrightarrow>
           set tr \<subseteq> set tr' \<and> fst ` set c \<subseteq> set tr' - set tr"
    and "analyze_pointer_cycles_refs n db refs c0 tr0 = Some (Return (c1, tr1)) \<Longrightarrow>
           set tr0 \<subseteq> set tr1 \<and> fst ` set c1 \<subseteq> fst ` set c0 \<union> (set tr1 - set tr0)"
proof (induction n db t tr and n db refs c0 tr0 arbitrary: c tr' and c1 tr1
    rule: analyze_pointer_cycles_rec_analyze_pointer_cycles_refs.induct)
  case (1 db type_id traversed)
  then show ?case by simp
next
  case (2 n db type_id traversed)
  show ?case
  proof (cases "type_id \<in> set traversed")
    case True
    with "2.prems" show ?thesis by simp
  next
    case False
    with "2.prems" obtain e where e: "types_entry_by_id db type_id = Return e"
      by (cases "types_entry_by_id db type_id") simp_all
    show ?thesis
    proof (cases "t_class e \<noteq> ''record''")
      case True
      with "2.prems" False e show ?thesis by simp
    next
      case rec: False
      with "2.prems" False e obtain cycles0 where
        c0: "record_pointer_cycles db type_id traversed (t_refs e)
               [0 ..< length (t_refs e)] [] = Some (Return cycles0)"
        and r: "analyze_pointer_cycles_refs n db (t_refs e) cycles0
                  (pyset_add traversed type_id) = Some (Return (c, tr'))"
        by (auto split: res.splits option.splits)
      from record_pointer_cycles_keys [OF c0] have k0: "fst ` set cycles0 \<subseteq> {type_id}"
        by simp
      from "2.IH" [OF False e rec c0 refl r]
      have s: "set (pyset_add traversed type_id) \<subseteq> set tr'"
        and k: "fst ` set c \<subseteq> fst ` set cycles0 \<union> (set tr' - set (pyset_add traversed type_id))"
        by blast+
      from s have t: "type_id \<in> set tr'" and s': "set traversed \<subseteq> set tr'"
        by (auto simp: pyset_add_def split: if_splits)
      have "fst ` set c \<subseteq> set tr' - set traversed"
      proof
        fix x assume "x \<in> fst ` set c"
        with k have "x \<in> fst ` set cycles0 \<or> x \<in> set tr' - set (pyset_add traversed type_id)"
          by blast
        then show "x \<in> set tr' - set traversed"
        proof
          assume "x \<in> fst ` set cycles0"
          with k0 have "x = type_id" by blast
          with t False show ?thesis by simp
        next
          assume "x \<in> set tr' - set (pyset_add traversed type_id)"
          then show ?thesis by (auto simp: pyset_add_def split: if_splits)
        qed
      qed
      with s' show ?thesis by simp
    qed
  qed
next
  case (3 n db cycles traversed)
  then show ?case by simp
next
  case (4 n db ref refs cycles traversed)
  show ?case
  proof (cases "ref \<in> set traversed")
    case True
    with "4.prems" have "analyze_pointer_cycles_refs n db refs cycles traversed
                           = Some (Return (c1, tr1))" by simp
    from "4.IH"(1) [OF True this] show ?thesis .
  next
    case False
    with "4.prems" obtain t sub tr' where
      d: "dereference db ref = Some (Return t)"
      and a: "analyze_pointer_cycles_rec n db t traversed = Some (Return (sub, tr'))"
      and r: "analyze_pointer_cycles_refs n db refs (dict_merge cycles sub) tr'
                = Some (Return (c1, tr1))"
      by (auto split: res.splits option.splits)
    from "4.IH"(2) [OF False d refl a]
    have s1: "set traversed \<subseteq> set tr'" and k1: "fst ` set sub \<subseteq> set tr' - set traversed"
      by blast+
    from "4.IH"(3) [OF False d refl a refl refl r]
    have s2: "set tr' \<subseteq> set tr1"
      and k2: "fst ` set c1 \<subseteq> fst ` set (dict_merge cycles sub) \<union> (set tr1 - set tr')"
      by blast+
    have "fst ` set c1 \<subseteq> fst ` set cycles \<union> (set tr1 - set traversed)"
    proof
      fix x assume "x \<in> fst ` set c1"
      with k2 have "x \<in> fst ` set cycles \<or> x \<in> fst ` set sub \<or> x \<in> set tr1 - set tr'"
        by (auto simp: keys_dict_merge)
      with k1 s1 s2 show "x \<in> fst ` set cycles \<union> (set tr1 - set traversed)" by blast
    qed
    with s1 s2 show ?thesis by blast
  qed
qed

text \<open>
  C10, as stated, also says that the replacement happens between the branches of the
  search inside one root. It does not: \<open>traversed\<close> is shared by the branches, a key
  is written only by the visit that adds it to \<open>traversed\<close>, and so at every merge
  inside one root the dictionary gathered so far and the result of the next branch
  have no key in common.
\<close>

theorem no_replacement_between_branches_counterexample:
  "\<not> (\<exists>n db type_id traversed db_type cycles0 pre ref post cycles tr t sub tr' k.
         type_id \<notin> set traversed
       \<and> types_entry_by_id db type_id = Return db_type
       \<and> record_pointer_cycles db type_id traversed (t_refs db_type)
            [0 ..< length (t_refs db_type)] [] = Some (Return cycles0)
       \<and> t_refs db_type = pre @ ref # post
       \<and> analyze_pointer_cycles_refs n db pre cycles0 (pyset_add traversed type_id)
            = Some (Return (cycles, tr))
       \<and> dereference db ref = Some (Return t)
       \<and> analyze_pointer_cycles_rec n db t tr = Some (Return (sub, tr'))
       \<and> k \<in> fst ` set cycles \<and> k \<in> fst ` set sub)"
proof
  assume "\<exists>n db type_id traversed db_type cycles0 pre ref post cycles tr t sub tr' k.
         type_id \<notin> set traversed
       \<and> types_entry_by_id db type_id = Return db_type
       \<and> record_pointer_cycles db type_id traversed (t_refs db_type)
            [0 ..< length (t_refs db_type)] [] = Some (Return cycles0)
       \<and> t_refs db_type = pre @ ref # post
       \<and> analyze_pointer_cycles_refs n db pre cycles0 (pyset_add traversed type_id)
            = Some (Return (cycles, tr))
       \<and> dereference db ref = Some (Return t)
       \<and> analyze_pointer_cycles_rec n db t tr = Some (Return (sub, tr'))
       \<and> k \<in> fst ` set cycles \<and> k \<in> fst ` set sub"
  then show False
  proof (elim exE conjE)
    fix n db type_id traversed db_type cycles0 pre ref post cycles tr t sub tr' k
    assume c0: "record_pointer_cycles db type_id traversed (t_refs db_type)
            [0 ..< length (t_refs db_type)] [] = Some (Return cycles0)"
      and p: "analyze_pointer_cycles_refs n db pre cycles0 (pyset_add traversed type_id)
            = Some (Return (cycles, tr))"
      and a: "analyze_pointer_cycles_rec n db t tr = Some (Return (sub, tr'))"
      and k1: "k \<in> fst ` set cycles" and k2: "k \<in> fst ` set sub"
    from record_pointer_cycles_keys [OF c0] have "fst ` set cycles0 \<subseteq> {type_id}" by simp
    moreover from keys_new_traversed(2) [OF p]
    have "set (pyset_add traversed type_id) \<subseteq> set tr"
      and "fst ` set cycles \<subseteq> fst ` set cycles0 \<union> (set tr - set (pyset_add traversed type_id))"
      by blast+
    moreover have "type_id \<in> set (pyset_add traversed type_id)"
      by (simp add: pyset_add_def)
    ultimately have "fst ` set cycles \<subseteq> set tr" by blast
    with k1 have "k \<in> set tr" by blast
    moreover from keys_new_traversed(1) [OF a] k2 have "k \<notin> set tr" by blast
    ultimately show False by simp
  qed
qed

section \<open>Well-formed pairs of bound members\<close>


lemma py_nth_in_set: "py_nth xs i = Return x \<Longrightarrow> x \<in> set xs"
  by (auto simp: py_nth_def split: if_splits)

lemma follow_offsetref_in_set:
  assumes "follow_offsetref ds d = Return d'" and "d \<in> set ds"
  shows "d' \<in> set ds"
proof (cases "d_kind d \<noteq> ''member''")
  case False
  with assms show ?thesis by (simp add: follow_offsetref_def)
next
  case True
  show ?thesis
  proof (cases "py_nth (d_offsetrefs d) 0")
    case (Raise e)
    with assms(1) True show ?thesis by (simp add: follow_offsetref_def)
  next
    case (Return r)
    with assms(1) True have "py_nth ds (or_id r) = Return d'"
      by (simp add: follow_offsetref_def)
    then show ?thesis by (rule py_nth_in_set)
  qed
qed

lemma walk_to_members_result:
  assumes "walk_to_members ds0 a0 b0 = Some r0"
  shows "\<forall>c1 c2. r0 = Return (c1, c2) \<longrightarrow> a0 \<in> set ds0 \<longrightarrow> b0 \<in> set ds0 \<longrightarrow>
           c1 \<in> set ds0 \<and> c2 \<in> set ds0 \<and> d_kind c1 = ''member'' \<and> d_kind c2 = ''member''"
proof (rule walk_to_members.raw_induct [where P = "\<lambda>ds a b r.
     \<forall>c1 c2. r = Return (c1, c2) \<longrightarrow> a \<in> set ds \<longrightarrow> b \<in> set ds \<longrightarrow>
       c1 \<in> set ds \<and> c2 \<in> set ds \<and> d_kind c1 = ''member'' \<and> d_kind c2 = ''member''",
     OF _ assms])
  fix w :: "deref list \<Rightarrow> deref \<Rightarrow> deref \<Rightarrow> (deref \<times> deref) res option" and ds a b r
  assume IH: "\<And>ds' a' b' y. w ds' a' b' = Some y \<Longrightarrow>
     \<forall>c1 c2. y = Return (c1, c2) \<longrightarrow> a' \<in> set ds' \<longrightarrow> b' \<in> set ds' \<longrightarrow>
       c1 \<in> set ds' \<and> c2 \<in> set ds' \<and> d_kind c1 = ''member'' \<and> d_kind c2 = ''member''"
  assume eq: "(if d_kind a \<noteq> ''member'' \<or> d_kind b \<noteq> ''member'' then
        (case follow_offsetref ds a of
           Return a' \<Rightarrow>
             (case follow_offsetref ds b of
                Return b' \<Rightarrow> w ds a' b'
              | Raise e \<Rightarrow> Some (Raise e))
         | Raise e \<Rightarrow> Some (Raise e))
      else Some (Return (a, b))) = Some r"
  show "\<forall>c1 c2. r = Return (c1, c2) \<longrightarrow> a \<in> set ds \<longrightarrow> b \<in> set ds \<longrightarrow>
       c1 \<in> set ds \<and> c2 \<in> set ds \<and> d_kind c1 = ''member'' \<and> d_kind c2 = ''member''"
  proof (intro allI impI)
    fix c1 c2 assume r: "r = Return (c1, c2)" and a: "a \<in> set ds" and b: "b \<in> set ds"
    show "c1 \<in> set ds \<and> c2 \<in> set ds \<and> d_kind c1 = ''member'' \<and> d_kind c2 = ''member''"
    proof (cases "d_kind a \<noteq> ''member'' \<or> d_kind b \<noteq> ''member''")
      case False
      with eq r a b show ?thesis by simp
    next
      case True
      obtain a' where a': "follow_offsetref ds a = Return a'"
        using eq r True by (cases "follow_offsetref ds a") simp_all
      obtain b' where b': "follow_offsetref ds b = Return b'"
        using eq r True a' by (cases "follow_offsetref ds b") simp_all
      have w: "w ds a' b' = Some (Return (c1, c2))"
        using eq r True a' b' by simp
      show ?thesis
        by (rule IH [OF w, rule_format, OF refl follow_offsetref_in_set [OF a' a]
              follow_offsetref_in_set [OF b' b]])
    qed
  qed
qed

lemma funcs_entry_by_id_in_set: "funcs_entry_by_id db i = Return f \<Longrightarrow> f \<in> set (funcs db)"
  by (auto simp: funcs_entry_by_id_def find_Some_iff in_set_conv_nth split: option.splits)

lemma argument_deref_in_set:
  assumes "argument_deref f ci pos = Return d"
  shows "d \<in> set (f_derefs f)"
proof -
  obtain args where a: "py_nth (f_call_info f) ci = Return args"
    using assms by (cases "py_nth (f_call_info f) ci") (simp_all add: argument_deref_def)
  obtain deref_id where b: "py_nth args pos = Return deref_id"
    using assms a by (cases "py_nth args pos") (simp_all add: argument_deref_def)
  from assms a b have "py_nth (f_derefs f) deref_id = Return d"
    by (simp add: argument_deref_def)
  then show ?thesis by (rule py_nth_in_set)
qed

lemma member_bounds_of_ok:
  assumes "member_bounds_of db b1 b2 = Return (Some mb)"
    and "f \<in> set (funcs db)" "b1 \<in> set (f_derefs f)" "b2 \<in> set (f_derefs f)"
    and "d_kind b1 = ''member''" "d_kind b2 = ''member''"
  shows "bound_pair_ok db (mb_type_id mb) mb"
proof -
  note d = member_bounds_of_def
  obtain T1 where t1: "py_last (d_type b1) = Return T1"
    using assms(1) by (cases "py_last (d_type b1)") (simp_all add: d)
  obtain T where t2: "py_last (d_type b2) = Return T"
    using assms(1) t1 by (cases "py_last (d_type b2)") (simp_all add: d)
  have eq: "T1 = T"
    using assms(1) t1 t2 by (cases "T1 = T") (simp_all add: d)
  obtain anchor where an: "types_entry_by_id db T = Return anchor"
    using assms(1) t1 t2 eq by (cases "types_entry_by_id db T") (simp_all add: d)
  have nu: "\<not> (t_class anchor = ''record'' \<and> t_union anchor)"
    using assms(1) t1 t2 eq an
    by (cases "t_class anchor = ''record'' \<and> t_union anchor") (simp_all add: d)
  obtain m1 where m1: "py_last (d_member b1) = Return m1"
    using assms(1) t1 t2 eq an nu by (cases "py_last (d_member b1)") (simp_all add: d)
  obtain m2 where m2: "py_last (d_member b2) = Return m2"
    using assms(1) t1 t2 eq an nu m1 by (cases "py_last (d_member b2)") (simp_all add: d)
  have mb: "mb = \<lparr> mb_type_id = T, binding_member = m1, bound_member = m2 \<rparr>"
    using assms(1) t1 t2 eq an nu m1 m2 by (simp add: d)
  have a: "\<exists>anchor. types_entry_by_id db T = Return anchor
            \<and> \<not> (t_class anchor = ''record'' \<and> t_union anchor)"
    using an nu by blast
  have b: "\<exists>f \<in> set (funcs db). \<exists>c1 \<in> set (f_derefs f). \<exists>c2 \<in> set (f_derefs f).
            d_kind c1 = ''member'' \<and> d_kind c2 = ''member''
            \<and> py_last (d_type c1) = Return T \<and> py_last (d_type c2) = Return T
            \<and> py_last (d_member c1) = Return m1
            \<and> py_last (d_member c2) = Return m2"
  proof (rule bexI [of _ f], rule bexI [of _ b1], rule bexI [of _ b2])
    show "d_kind b1 = ''member'' \<and> d_kind b2 = ''member''
            \<and> py_last (d_type b1) = Return T \<and> py_last (d_type b2) = Return T
            \<and> py_last (d_member b1) = Return m1
            \<and> py_last (d_member b2) = Return m2"
      using assms(5,6) t1 t2 eq m1 m2 by simp
  qed (rule assms)+
  show ?thesis
    unfolding bound_pair_ok_def using a b by (simp add: mb)
qed

lemma analyze_model_ok:
  assumes "analyze_model db f ci model = Some (Return (Some mb))" and "f \<in> set (funcs db)"
  shows "bound_pair_ok db (mb_type_id mb) mb"
proof -
  note d = analyze_model_def
  obtain a where a: "argument_deref f ci (fst model) = Return a"
    using assms(1) by (cases "argument_deref f ci (fst model)") (simp_all add: d)
  obtain b where b: "argument_deref f ci (snd model) = Return b"
    using assms(1) a by (cases "argument_deref f ci (snd model)") (simp_all add: d)
  obtain k1 where k1: "first_offsetref_kind a = Return k1"
    using assms(1) a b by (cases "first_offsetref_kind a") (simp_all add: d)
  have k1m: "k1 = ''member''"
    using assms(1) a b k1 by (cases "k1 = ''member''") (simp_all add: d)
  obtain k2 where k2: "first_offsetref_kind b = Return k2"
    using assms(1) a b k1 k1m by (cases "first_offsetref_kind b") (simp_all add: d)
  have k2m: "k2 = ''member''"
    using assms(1) a b k1 k1m k2 by (cases "k2 = ''member''") (simp_all add: d)
  obtain r where r: "walk_to_members (f_derefs f) a b = Some r"
    using assms(1) a b k1 k1m k2 k2m
    by (cases "walk_to_members (f_derefs f) a b") (simp_all add: d)
  obtain c1 c2 where c: "r = Return (c1, c2)"
    using assms(1) a b k1 k1m k2 k2m r
    by (cases r) (auto simp: d)
  have m: "member_bounds_of db c1 c2 = Return (Some mb)"
    using assms(1) a b k1 k1m k2 k2m r c by (simp add: d)
  from walk_to_members_result [OF r] c argument_deref_in_set [OF a] argument_deref_in_set [OF b]
  have "c1 \<in> set (f_derefs f)" "c2 \<in> set (f_derefs f)"
    "d_kind c1 = ''member''" "d_kind c2 = ''member''" by simp_all
  then show ?thesis by (rule member_bounds_of_ok [OF m assms(2)])
qed

lemma set_update_subset: "set (AList.update k v al) \<subseteq> insert (k, v) (set al)"
  by (induction al) auto

lemma bounds_ok_add_bounds:
  assumes "bounds_ok db res" and "bound_pair_ok db (mb_type_id mb) mb"
  shows "bounds_ok db (add_bounds res mb)"
proof -
  have new: "\<forall>x \<in> set v. bound_pair_ok db (mb_type_id mb) x \<Longrightarrow>
             bounds_ok db (AList.update (mb_type_id mb) v res)" for v
    using assms(1) set_update_subset [of "mb_type_id mb" v res]
    unfolding bounds_ok_def by fastforce
  show ?thesis
  proof (cases "map_of res (mb_type_id mb)")
    case None
    with new [of "[mb]"] assms(2) show ?thesis by (simp add: add_bounds_def)
  next
    case (Some s)
    then have "(mb_type_id mb, s) \<in> set res" by (rule map_of_SomeD)
    with assms(1) have "\<forall>x \<in> set s. bound_pair_ok db (mb_type_id mb) x"
      unfolding bounds_ok_def by blast
    with assms(2) have "\<forall>x \<in> set (pyset_add s mb). bound_pair_ok db (mb_type_id mb) x"
      by (simp add: pyset_add_def)
    with new [of "pyset_add s mb"] new [of "[mb]"] assms(2) Some show ?thesis
      by (simp add: add_bounds_def)
  qed
qed

lemma bounds_ok_analyze_models:
  "analyze_models db f ci models res = Some (Return res') \<Longrightarrow> f \<in> set (funcs db) \<Longrightarrow>
   bounds_ok db res \<Longrightarrow> bounds_ok db res'"
proof (induction models arbitrary: res)
  case Nil
  then show ?case by simp
next
  case (Cons model models)
  from Cons.prems(1) consider
    "analyze_model db f ci model = Some (Return None)"
      "analyze_models db f ci models res = Some (Return res')"
    | mb where "analyze_model db f ci model = Some (Return (Some mb))"
      "analyze_models db f ci models (add_bounds res mb) = Some (Return res')"
    by (auto split: res.splits option.splits)
  then show ?case
  proof cases
    case 1
    with Cons show ?thesis by blast
  next
    case 2
    from analyze_model_ok [OF 2(1) Cons.prems(2)] Cons.prems(3)
    have "bounds_ok db (add_bounds res mb)" by (simp add: bounds_ok_add_bounds)
    from Cons.IH [OF 2(2) Cons.prems(2) this] show ?thesis .
  qed
qed

lemma bounds_ok_analyze_calls:
  "analyze_calls self db f cis res = Some (Return res') \<Longrightarrow> f \<in> set (funcs db) \<Longrightarrow>
   bounds_ok db res \<Longrightarrow> bounds_ok db res'"
proof (induction cis arbitrary: res)
  case Nil
  then show ?case by simp
next
  case (Cons ci cis)
  from Cons.prems(1) obtain r1 where
    r1: "analyze_models db f ci (models_of_call self f ci) res = Some (Return r1)"
    and r2: "analyze_calls self db f cis r1 = Some (Return res')"
    by (auto split: res.splits option.splits)
  from bounds_ok_analyze_models [OF r1 Cons.prems(2,3)] Cons.IH [OF r2 Cons.prems(2)]
  show ?case by blast
qed

lemma set_dict_merge_subset: "set (dict_merge a b) \<subseteq> set a \<union> set b"
proof -
  have "set (fold (\<lambda>p d. AList.update (fst p) (snd p) d) b a) \<subseteq> set a \<union> set b" for a
  proof (induction b arbitrary: a)
    case Nil
    show ?case by simp
  next
    case (Cons p b)
    have "set (AList.update (fst p) (snd p) a) \<subseteq> insert p (set a)"
      using set_update_subset [of "fst p" "snd p" a] by simp
    with Cons.IH [of "AList.update (fst p) (snd p) a"] show ?case by auto
  qed
  then show ?thesis by (simp add: dict_merge_def split_def)
qed

lemma bounds_ok_dict_merge:
  "bounds_ok db a \<Longrightarrow> bounds_ok db b \<Longrightarrow> bounds_ok db (dict_merge a b)"
  using set_dict_merge_subset [of a b] unfolding bounds_ok_def by blast

lemma bounds_ok_merge_all:
  "merge_all acc rs = Some (Return out) \<Longrightarrow> bounds_ok db acc \<Longrightarrow>
   (\<forall>d. Some (Return d) \<in> set rs \<longrightarrow> bounds_ok db d) \<Longrightarrow> bounds_ok db out"
proof (induction acc rs rule: merge_all.induct)
  case (4 acc d rs)
  then show ?case by (simp add: bounds_ok_dict_merge)
qed auto

text \<open>
  C4 (amended). Every pair that \<open>analyze_bounds\<close> records under a type id \<open>T\<close>
  carries \<open>T\<close> as its own type id, the entry of \<open>T\<close> exists and is not a union
  record, and the two member indices of the pair are the last member indices of two
  derefs of kind \<open>member\<close> of one function whose last parent type is \<open>T\<close>. Nothing
  makes the two indices different.
\<close>

theorem analyze_bounds_pairs_wellformed:
  "analyze_bounds self db fid depth md = Some (Return res) \<Longrightarrow> bounds_ok db res"
proof (induction self db fid depth md arbitrary: res rule: analyze_bounds.induct)
  case (1 self db func_id depth max_depth)
  show ?case
  proof (cases "funcs_entry_by_id db func_id")
    case (Raise e)
    with "1.prems" show ?thesis
      by (simp add: analyze_bounds.simps [of self db func_id] bounds_ok_def)
  next
    case (Return f)
    show ?thesis
    proof (cases "depth > max_depth \<or> length (call_indexes_of self f) = 0")
      case True
      with "1.prems" Return show ?thesis
        by (simp add: analyze_bounds.simps [of self db func_id] bounds_ok_def)
    next
      case False
      with "1.prems" Return obtain r0 where
        r0: "analyze_calls self db f (call_indexes_of self f) [] = Some (Return r0)"
        and m: "merge_all r0 (map (\<lambda>call. analyze_bounds self db call (depth + 1) 4) (f_calls f))
                  = Some (Return res)"
        by (auto simp: analyze_bounds.simps [of self db func_id] split: res.splits option.splits)
      have ok0: "bounds_ok db r0"
        using bounds_ok_analyze_calls [OF r0 funcs_entry_by_id_in_set [OF Return]]
        by (simp add: bounds_ok_def)
      have oks: "\<forall>d. Some (Return d) \<in> set (map (\<lambda>call. analyze_bounds self db call (depth + 1) 4)
                                               (f_calls f)) \<longrightarrow> bounds_ok db d"
      proof (intro allI impI)
        fix d assume "Some (Return d) \<in> set (map (\<lambda>call. analyze_bounds self db call (depth + 1) 4)
                                               (f_calls f))"
        then have "Some (Return d) \<in> (\<lambda>call. analyze_bounds self db call (depth + 1) 4) ` set (f_calls f)"
          unfolding set_map .
        then obtain call where c: "call \<in> set (f_calls f)"
          and e: "Some (Return d) = analyze_bounds self db call (depth + 1) 4"
          by (rule imageE)
        from "1.IH" [OF Return False r0 refl c e [symmetric]] show "bounds_ok db d" .
      qed
      from bounds_ok_merge_all [OF m ok0 oks] show ?thesis .
    qed
  qed
qed


lemma db_bounds_50_pairs:
  "analyze_bounds (PointerBoundsPass_init db_bounds) db_bounds 50 1 4
     = Some (Return [(20, [\<lparr>mb_type_id = 20, binding_member = 1, bound_member = 0\<rparr>])])"
  by code_simp

theorem analyze_bounds_pairs_wellformed_witness:
  "analyze_bounds (PointerBoundsPass_init db_bounds) db_bounds 50 1 4
     = Some (Return [(20, [\<lparr>mb_type_id = 20, binding_member = 1, bound_member = 0\<rparr>])])
   \<and> (\<exists>anchor. types_entry_by_id db_bounds 20 = Return anchor
          \<and> \<not> (t_class anchor = ''record'' \<and> t_union anchor))
   \<and> (\<exists>f \<in> set (funcs db_bounds). \<exists>b1 \<in> set (f_derefs f). \<exists>b2 \<in> set (f_derefs f).
          d_kind b1 = ''member'' \<and> d_kind b2 = ''member''
          \<and> py_last (d_type b1) = Return 20 \<and> py_last (d_type b2) = Return 20
          \<and> py_last (d_member b1) = Return 1
          \<and> py_last (d_member b2) = Return 0)"
  using analyze_bounds_pairs_wellformed
          [of "PointerBoundsPass_init db_bounds" db_bounds 50 1 4
              "[(20, [\<lparr>mb_type_id = 20, binding_member = 1, bound_member = 0\<rparr>])]"]
        db_bounds_50_pairs
  by (simp add: bounds_ok_def bound_pair_ok_def)

text \<open>
  C4, as stated, fails on the function 43, which calls
  \<open>copy_from_user(s->buf, src, s->buf)\<close>: the size argument and the pointer argument
  are the same member, and the pair recorded for \<open>struct s\<close> has the index 0 twice.
  The record definition then gives the field \<open>buf\<close> its own name as length.
\<close>

theorem analyze_bounds_equal_indices_counterexample:
  "analyze_bounds (PointerBoundsPass_init db_bounds) db_bounds 43 1 4
     = Some (Return [(20, [\<lparr>mb_type_id = 20, binding_member = 0, bound_member = 0\<rparr>])])
   \<and> binding_member \<lparr>mb_type_id = 20, binding_member = 0, bound_member = 0\<rparr>
       = bound_member \<lparr>mb_type_id = 20, binding_member = 0, bound_member = 0\<rparr>"
  by code_simp

section \<open>Depth caps and termination\<close>

lemma extend_all_mem:
  "extend_all acc rs = Return out \<Longrightarrow> p \<in> set out \<Longrightarrow>
   p \<in> set acc \<or> (\<exists>xs. Return xs \<in> set rs \<and> p \<in> set xs)"
proof (induction acc rs rule: extend_all.induct)
  case (3 acc xs rs)
  then show ?case by auto
qed auto

lemma recursively_pick_cut:
  "max_depth < depth \<Longrightarrow>
   recursively_pick_ioctl_with_switchcase db fid a depth max_depth = Return []"
  by (simp add: recursively_pick_ioctl_with_switchcase.simps)

lemma recursively_pick_chain:
  "recursively_pick_ioctl_with_switchcase db fid a depth md = Return fs \<Longrightarrow> p \<in> set fs \<Longrightarrow>
   \<exists>chain. chain \<noteq> [] \<and> hd chain = (fid, a) \<and> last chain = p \<and> forward_chain db chain
      \<and> depth + length chain \<le> md + 1"
proof (induction db fid a depth md arbitrary: fs rule: recursively_pick_ioctl_with_switchcase.induct)
  case (1 db fid argument_id depth max_depth)
  have d: "\<not> depth > max_depth"
  proof
    assume "depth > max_depth"
    with "1.prems" show False
      by (simp add: recursively_pick_ioctl_with_switchcase.simps [of db fid])
  qed
  from "1.prems" d obtain f where f: "funcs_entry_by_id db fid = Return f"
    by (cases "funcs_entry_by_id db fid")
       (simp_all add: recursively_pick_ioctl_with_switchcase.simps [of db fid])
  have l: "\<not> \<not> argument_id < length (f_locals f)"
  proof
    assume "\<not> argument_id < length (f_locals f)"
    with "1.prems" d f show False
      by (simp add: recursively_pick_ioctl_with_switchcase.simps [of db fid])
  qed
  from "1.prems" d f l obtain sw where
    sw: "pick_switchcases_by_argument_name db fid (f_locals f ! argument_id) = Return sw"
    by (cases "pick_switchcases_by_argument_name db fid (f_locals f ! argument_id)")
       (simp_all add: recursively_pick_ioctl_with_switchcase.simps [of db fid])
  from "1.prems" d f l sw obtain cands where
    cands: "get_forwarded_ioctls db fid = Return cands"
    by (cases "get_forwarded_ioctls db fid")
       (simp_all add: recursively_pick_ioctl_with_switchcase.simps [of db fid])
  from "1.prems"(1) d f l sw cands have
    e: "extend_all (if sw \<noteq> [] then [(fid, argument_id)] else [])
          (map (\<lambda>c. recursively_pick_ioctl_with_switchcase db (fst c) (snd c) (depth + 1) max_depth)
               cands) = Return fs"
    by (simp add: recursively_pick_ioctl_with_switchcase.simps [of db fid])
  from extend_all_mem [OF e "1.prems"(2)] show ?case
  proof
    assume "p \<in> set (if sw \<noteq> [] then [(fid, argument_id)] else [])"
    then have "p = (fid, argument_id)" by (simp split: if_splits)
    with d show ?thesis
      by (intro exI [of _ "[(fid, argument_id)]"]) simp
  next
    assume "\<exists>xs. Return xs \<in> set (map (\<lambda>c. recursively_pick_ioctl_with_switchcase db (fst c)
                                          (snd c) (depth + 1) max_depth) cands) \<and> p \<in> set xs"
    then obtain xs where
      x: "Return xs \<in> (\<lambda>c. recursively_pick_ioctl_with_switchcase db (fst c) (snd c)
                              (depth + 1) max_depth) ` set cands"
      and pxs: "p \<in> set xs"
      unfolding set_map by blast
    from x obtain c where c: "c \<in> set cands"
      and r: "Return xs = recursively_pick_ioctl_with_switchcase db (fst c) (snd c)
                            (depth + 1) max_depth"
      by (rule imageE)
    from "1.IH" [OF d f l sw cands c r [symmetric] pxs] obtain chain where
      ch: "chain \<noteq> []" "hd chain = (fst c, snd c)" "last chain = p" "forward_chain db chain"
        "depth + 1 + length chain \<le> max_depth + 1"
      by blast
    from ch(1,2) obtain rest where rest: "chain = c # rest" by (cases chain) auto
    have "forward_chain db ((fid, argument_id) # chain)"
      using ch(4) c cands by (simp add: rest)
    with ch show ?thesis
      by (intro exI [of _ "(fid, argument_id) # chain"]) simp
  qed
qed

lemma analyze_bounds_cut:
  "max_depth < depth \<Longrightarrow> analyze_bounds self db fid depth max_depth = Some (Return [])"
  by (cases "funcs_entry_by_id db fid") (simp_all add: analyze_bounds.simps [of self db fid])

lemma walk_to_members_members:
  "d_kind a = ''member'' \<Longrightarrow> d_kind b = ''member'' \<Longrightarrow>
   walk_to_members ds a b = Some (Return (a, b))"
  by (subst walk_to_members.simps) simp

lemma follow_offsetref_member:
  assumes ok: "member_refs_ok f" and d: "d \<in> set (f_derefs f)"
    and k: "first_offsetref_kind d = Return ''member''"
    and r: "follow_offsetref (f_derefs f) d = Return d'"
  shows "d_kind d' = ''member''"
proof (cases "d_kind d \<noteq> ''member''")
  case False
  with r show ?thesis by (simp add: follow_offsetref_def)
next
  case True
  from k obtain o1 where o1: "py_nth (d_offsetrefs d) 0 = Return o1" and m: "or_kind o1 = ''member''"
    by (cases "py_nth (d_offsetrefs d) 0") (simp_all add: first_offsetref_kind_def)
  from r True o1 have n: "py_nth (f_derefs f) (or_id o1) = Return d'"
    by (simp add: follow_offsetref_def)
  from ok d have "case py_nth (d_offsetrefs d) 0 of
                      Raise _ \<Rightarrow> True
                    | Return r \<Rightarrow>
                        d_kind d \<noteq> ''member'' \<and> or_kind r = ''member'' \<longrightarrow>
                          (case py_nth (f_derefs f) (or_id r) of
                             Raise _ \<Rightarrow> True
                           | Return d' \<Rightarrow> d_kind d' = ''member'')"
    unfolding member_refs_ok_def list_all_iff by (rule bspec)
  with o1 True m n show ?thesis by simp
qed

lemma walk_to_members_returns:
  assumes ok: "member_refs_ok f" and a: "a \<in> set (f_derefs f)" and b: "b \<in> set (f_derefs f)"
    and ka: "first_offsetref_kind a = Return ''member''"
    and kb: "first_offsetref_kind b = Return ''member''"
  shows "\<exists>r. walk_to_members (f_derefs f) a b = Some r"
proof (cases "d_kind a \<noteq> ''member'' \<or> d_kind b \<noteq> ''member''")
  case False
  then show ?thesis by (simp add: walk_to_members_members)
next
  case True
  show ?thesis
  proof (cases "follow_offsetref (f_derefs f) a")
    case (Raise e)
    with True show ?thesis by (subst walk_to_members.simps) simp
  next
    case ra: (Return a')
    show ?thesis
    proof (cases "follow_offsetref (f_derefs f) b")
      case (Raise e)
      with True ra show ?thesis by (subst walk_to_members.simps) simp
    next
      case rb: (Return b')
      have "walk_to_members (f_derefs f) a b = walk_to_members (f_derefs f) a' b'"
        using True ra rb by (subst walk_to_members.simps) simp
      also have "\<dots> = Some (Return (a', b'))"
        using follow_offsetref_member [OF ok a ka ra] follow_offsetref_member [OF ok b kb rb]
        by (rule walk_to_members_members)
      finally show ?thesis by blast
    qed
  qed
qed

lemma analyze_model_returns:
  assumes ok: "member_refs_ok f"
  shows "\<exists>r. analyze_model db f ci model = Some r"
proof (cases "argument_deref f ci (fst model)")
  case (Raise e)
  then show ?thesis by (simp add: analyze_model_def)
next
  case a: (Return a)
  show ?thesis
  proof (cases "argument_deref f ci (snd model)")
    case (Raise e)
    with a show ?thesis by (simp add: analyze_model_def)
  next
    case b: (Return b)
    show ?thesis
    proof (cases "first_offsetref_kind a")
      case (Raise e)
      with a b show ?thesis by (simp add: analyze_model_def)
    next
      case ka: (Return k1)
      show ?thesis
      proof (cases "k1 \<noteq> ''member''")
        case True
        with a b ka show ?thesis by (simp add: analyze_model_def)
      next
        case m1: False
        show ?thesis
        proof (cases "first_offsetref_kind b")
          case (Raise e)
          with a b ka m1 show ?thesis by (simp add: analyze_model_def)
        next
          case kb: (Return k2)
          show ?thesis
          proof (cases "k2 \<noteq> ''member''")
            case True
            with a b ka m1 kb show ?thesis by (simp add: analyze_model_def)
          next
            case m2: False
            from ka m1 have ka': "first_offsetref_kind a = Return ''member''" by simp
            from kb m2 have kb': "first_offsetref_kind b = Return ''member''" by simp
            from walk_to_members_returns
                   [OF ok argument_deref_in_set [OF a] argument_deref_in_set [OF b] ka' kb']
            obtain r where r: "walk_to_members (f_derefs f) a b = Some r" by blast
            show ?thesis
            proof (cases r)
              case (Raise e)
              with a b ka' kb' r show ?thesis by (simp add: analyze_model_def)
            next
              case (Return pr)
              obtain c1 c2 where "pr = (c1, c2)" by (cases pr)
              with Return a b ka' kb' r show ?thesis by (simp add: analyze_model_def)
            qed
          qed
        qed
      qed
    qed
  qed
qed

lemma analyze_models_returns:
  assumes ok: "member_refs_ok f"
  shows "\<exists>r. analyze_models db f ci models res = Some r"
proof (induction models arbitrary: res)
  case Nil
  show ?case by simp
next
  case (Cons model models)
  from analyze_model_returns [OF ok] obtain r where
    r: "analyze_model db f ci model = Some r" by blast
  show ?case
  proof (cases r)
    case (Raise e)
    with r show ?thesis by simp
  next
    case (Return x)
    show ?thesis
    proof (cases x)
      case None
      with r Return Cons.IH [of res] show ?thesis by simp
    next
      case (Some mb)
      with r Return Cons.IH [of "add_bounds res mb"] show ?thesis by simp
    qed
  qed
qed

lemma analyze_calls_returns:
  assumes ok: "member_refs_ok f"
  shows "\<exists>r. analyze_calls self db f cis res = Some r"
proof (induction cis arbitrary: res)
  case Nil
  show ?case by simp
next
  case (Cons ci cis)
  from analyze_models_returns [OF ok] obtain r where
    r: "analyze_models db f ci (models_of_call self f ci) res = Some r" by blast
  show ?case
  proof (cases r)
    case (Raise e)
    with r show ?thesis by simp
  next
    case (Return res')
    with r Cons.IH [of res'] show ?thesis by simp
  qed
qed

lemma merge_all_returns:
  "\<forall>x \<in> set rs. \<exists>r. x = Some r \<Longrightarrow> \<exists>r. merge_all acc rs = Some r"
  by (induction acc rs rule: merge_all.induct) auto

lemma analyze_bounds_returns:
  "\<forall>f \<in> set (funcs db). member_refs_ok f \<Longrightarrow>
   \<exists>r. analyze_bounds self db fid depth md = Some r"
proof (induction self db fid depth md rule: analyze_bounds.induct)
  case (1 self db func_id depth max_depth)
  show ?case
  proof (cases "funcs_entry_by_id db func_id")
    case (Raise e)
    then show ?thesis by (simp add: analyze_bounds.simps [of self db func_id])
  next
    case (Return f)
    show ?thesis
    proof (cases "depth > max_depth \<or> length (call_indexes_of self f) = 0")
      case True
      with Return show ?thesis by (simp add: analyze_bounds.simps [of self db func_id])
    next
      case False
      from "1.prems" funcs_entry_by_id_in_set [OF Return] have ok: "member_refs_ok f"
        by blast
      from analyze_calls_returns [OF ok] obtain r where
        r: "analyze_calls self db f (call_indexes_of self f) [] = Some r" by blast
      show ?thesis
      proof (cases r)
        case (Raise e)
        with Return False r show ?thesis
          by (simp add: analyze_bounds.simps [of self db func_id])
      next
        case r0: (Return res)
        have "\<forall>x \<in> set (map (\<lambda>call. analyze_bounds self db call (depth + 1) 4) (f_calls f)).
                \<exists>r. x = Some r"
        proof
          fix x
          assume "x \<in> set (map (\<lambda>call. analyze_bounds self db call (depth + 1) 4) (f_calls f))"
          then have "x \<in> (\<lambda>call. analyze_bounds self db call (depth + 1) 4) ` set (f_calls f)"
            unfolding set_map .
          then obtain call where c: "call \<in> set (f_calls f)"
            and x: "x = analyze_bounds self db call (depth + 1) 4"
            by (rule imageE)
          from r r0 have r': "analyze_calls self db f (call_indexes_of self f) [] = Some (Return res)"
            by simp
          from "1.IH" [OF Return False r' refl c "1.prems"] x show "\<exists>r. x = Some r"
            by simp
        qed
        from merge_all_returns [OF this] obtain out where
          "merge_all res (map (\<lambda>call. analyze_bounds self db call (depth + 1) 4) (f_calls f))
             = Some out" by blast
        with Return False r r0 show ?thesis
          by (simp add: analyze_bounds.simps [of self db func_id])
      qed
    qed
  qed
qed

text \<open>
  C5 (amended). \<open>recursively_pick_ioctl_with_switchcase\<close> returns the empty list at once
  when \<open>depth\<close> exceeds \<open>max_depth\<close>, and every pair it returns ends a chain of forwarded
  ioctls that starts at its argument and has at most \<open>max_depth + 1 - depth\<close> pairs:
  three for the initial call. It is defined by recursion on \<open>max_depth + 1 - depth\<close> and
  so returns on every database, whatever the call relation is. \<open>analyze_bounds\<close>
  returns the empty dictionary at once when \<open>depth\<close> exceeds \<open>max_depth\<close>, and every
  type id it returns comes from a chain of calls that has at most \<open>5 - depth\<close>
  functions: four for the initial call. It returns on every database in which a first
  offsetref of kind \<open>member\<close> of a deref that is not a member expression names a member
  expression, whatever the call relation is.
\<close>

theorem depth_caps_and_termination:
  "(max_depth < depth \<longrightarrow>
      recursively_pick_ioctl_with_switchcase db fid a depth max_depth = Return [])
   \<and> (recursively_pick_ioctl_with_switchcase db fid a depth max_depth = Return fs \<and> p \<in> set fs
       \<longrightarrow> (\<exists>chain. chain \<noteq> [] \<and> hd chain = (fid, a) \<and> last chain = p
              \<and> forward_chain db chain \<and> depth + length chain \<le> max_depth + 1))
   \<and> (max_depth < depth \<longrightarrow> analyze_bounds self db fid depth max_depth = Some (Return []))
   \<and> (analyze_bounds self db fid depth 4 = Some (Return res) \<and> T \<in> fst ` set res
       \<longrightarrow> (\<exists>chain. chain \<noteq> [] \<and> hd chain = fid \<and> copy_chain self db chain
              \<and> (\<exists>r. local_bounds self db (last chain) = Some (Return r) \<and> T \<in> fst ` set r)
              \<and> depth + length chain \<le> 5))
   \<and> ((\<forall>f \<in> set (funcs db). member_refs_ok f)
       \<longrightarrow> (\<exists>r. analyze_bounds self db fid depth max_depth = Some r))"
proof (intro conjI impI)
  assume "max_depth < depth"
  then show "recursively_pick_ioctl_with_switchcase db fid a depth max_depth = Return []"
    by (rule recursively_pick_cut)
next
  assume "recursively_pick_ioctl_with_switchcase db fid a depth max_depth = Return fs
          \<and> p \<in> set fs"
  then have "recursively_pick_ioctl_with_switchcase db fid a depth max_depth = Return fs"
    and "p \<in> set fs" by blast+
  then show "\<exists>chain. chain \<noteq> [] \<and> hd chain = (fid, a) \<and> last chain = p
              \<and> forward_chain db chain \<and> depth + length chain \<le> max_depth + 1"
    by (rule recursively_pick_chain)
next
  assume "max_depth < depth"
  then show "analyze_bounds self db fid depth max_depth = Some (Return [])"
    by (rule analyze_bounds_cut)
next
  assume "analyze_bounds self db fid depth 4 = Some (Return res) \<and> T \<in> fst ` set res"
  then have "analyze_bounds self db fid depth 4 = Some (Return res)"
    and "T \<in> fst ` set res" by blast+
  from analyze_bounds_chain [OF this]
  show "\<exists>chain. chain \<noteq> [] \<and> hd chain = fid \<and> copy_chain self db chain
              \<and> (\<exists>r. local_bounds self db (last chain) = Some (Return r) \<and> T \<in> fst ` set r)
              \<and> depth + length chain \<le> 5"
    by blast
next
  assume "\<forall>f \<in> set (funcs db). member_refs_ok f"
  then show "\<exists>r. analyze_bounds self db fid depth max_depth = Some r"
    by (rule analyze_bounds_returns)
qed

lemma db_cyclic_pick:
  "recursively_pick_ioctl_with_switchcase db_cyclic 70 1 4 3 = Return []
   \<and> recursively_pick_ioctl_with_switchcase db_cyclic 70 1 1 3
       = Return [(70, 1), (70, 1), (70, 1)]"
  by code_simp

lemma db_cyclic_bounds:
  "analyze_bounds (PointerBoundsPass_init db_cyclic) db_cyclic 70 5 4 = Some (Return [])
   \<and> analyze_bounds (PointerBoundsPass_init db_cyclic) db_cyclic 70 1 4
       = Some (Return [(20, [\<lparr>mb_type_id = 20, binding_member = 1, bound_member = 0\<rparr>])])"
  by code_simp

lemma db_cyclic_ok: "\<forall>f \<in> set (funcs db_cyclic). member_refs_ok f"
  by code_simp

theorem depth_caps_and_termination_witness:
  "recursively_pick_ioctl_with_switchcase db_cyclic 70 1 4 3 = Return []
   \<and> recursively_pick_ioctl_with_switchcase db_cyclic 70 1 1 3
       = Return [(70, 1), (70, 1), (70, 1)]
   \<and> (\<exists>chain. chain \<noteq> [] \<and> hd chain = (70, 1) \<and> last chain = (70, 1)
          \<and> forward_chain db_cyclic chain \<and> 1 + length chain \<le> 3 + 1)
   \<and> analyze_bounds (PointerBoundsPass_init db_cyclic) db_cyclic 70 5 4 = Some (Return [])
   \<and> analyze_bounds (PointerBoundsPass_init db_cyclic) db_cyclic 70 1 4
       = Some (Return [(20, [\<lparr>mb_type_id = 20, binding_member = 1, bound_member = 0\<rparr>])])
   \<and> (\<exists>chain. chain \<noteq> [] \<and> hd chain = 70
          \<and> copy_chain (PointerBoundsPass_init db_cyclic) db_cyclic chain
          \<and> (\<exists>r. local_bounds (PointerBoundsPass_init db_cyclic) db_cyclic (last chain)
                     = Some (Return r) \<and> 20 \<in> fst ` set r)
          \<and> 1 + length chain \<le> 5)
   \<and> (\<exists>r. analyze_bounds (PointerBoundsPass_init db_cyclic) db_cyclic 70 1 4 = Some r)"
proof -
  have p1: "recursively_pick_ioctl_with_switchcase db_cyclic 70 1 4 3 = Return []"
    using depth_caps_and_termination [of 3 4 db_cyclic 70 1, THEN conjunct1] by simp
  have m2: "(70 :: nat, 1 :: nat) \<in> set [(70, 1), (70, 1), (70, 1)]" by simp
  have p2: "\<exists>chain. chain \<noteq> [] \<and> hd chain = (70, 1) \<and> last chain = (70, 1)
          \<and> forward_chain db_cyclic chain \<and> 1 + length chain \<le> 3 + 1"
    using depth_caps_and_termination
            [of 3 1 db_cyclic 70 1 "[(70, 1), (70, 1), (70, 1)]" "(70, 1)",
             THEN conjunct2, THEN conjunct1]
          db_cyclic_pick m2
    by blast
  have p3: "analyze_bounds (PointerBoundsPass_init db_cyclic) db_cyclic 70 5 4
              = Some (Return [])"
    using depth_caps_and_termination
            [of 4 5 db_cyclic 70 _ _ _ "PointerBoundsPass_init db_cyclic",
             THEN conjunct2, THEN conjunct2, THEN conjunct1]
    by simp
  have m4: "(20 :: nat) \<in> fst ` set [(20, [\<lparr>mb_type_id = 20, binding_member = 1,
                                                bound_member = 0\<rparr>])]"
    by simp
  have p4: "\<exists>chain. chain \<noteq> [] \<and> hd chain = 70
          \<and> copy_chain (PointerBoundsPass_init db_cyclic) db_cyclic chain
          \<and> (\<exists>r. local_bounds (PointerBoundsPass_init db_cyclic) db_cyclic (last chain)
                     = Some (Return r) \<and> 20 \<in> fst ` set r)
          \<and> 1 + length chain \<le> 5"
    using depth_caps_and_termination
            [of _ 1 db_cyclic 70 _ _ _ "PointerBoundsPass_init db_cyclic"
                "[(20, [\<lparr>mb_type_id = 20, binding_member = 1, bound_member = 0\<rparr>])]" 20,
             THEN conjunct2, THEN conjunct2, THEN conjunct2, THEN conjunct1]
          db_cyclic_bounds m4
    by blast
  have p5: "\<exists>r. analyze_bounds (PointerBoundsPass_init db_cyclic) db_cyclic 70 1 4 = Some r"
    using depth_caps_and_termination
            [of 4 1 db_cyclic 70 _ _ _ "PointerBoundsPass_init db_cyclic",
             THEN conjunct2, THEN conjunct2, THEN conjunct2, THEN conjunct2]
          db_cyclic_ok
    by blast
  from p1 p2 p3 p4 p5 db_cyclic_pick db_cyclic_bounds show ?thesis
    by (intro conjI) (simp_all only: simp_thms)
qed

text \<open>
  C5, as stated, fails on the function 71: its call of \<open>copy_from_user\<close> takes a deref
  that is not a member expression and whose first offsetref, of kind \<open>member\<close>, names
  this deref itself. The \<open>while\<close> loop of \<open>analyze_bounds\<close> assigns the deref to itself
  for ever, at depth 1 and with an acyclic call relation.
\<close>

lemma walk_to_members_d_loop_aux:
  assumes "walk_to_members ds0 a0 b0 = Some r0"
  shows "\<not> (ds0 = [d_loop] \<and> a0 = d_loop \<and> b0 = d_loop)"
proof (rule walk_to_members.raw_induct
    [where P = "\<lambda>ds a b r. \<not> (ds = [d_loop] \<and> a = d_loop \<and> b = d_loop)", OF _ assms])
  fix w :: "deref list \<Rightarrow> deref \<Rightarrow> deref \<Rightarrow> (deref \<times> deref) res option" and ds a b r
  assume IH: "\<And>ds' a' b' y. w ds' a' b' = Some y \<Longrightarrow>
                \<not> (ds' = [d_loop] \<and> a' = d_loop \<and> b' = d_loop)"
  assume eq: "(if d_kind a \<noteq> ''member'' \<or> d_kind b \<noteq> ''member'' then
        (case follow_offsetref ds a of
           Return a' \<Rightarrow>
             (case follow_offsetref ds b of
                Return b' \<Rightarrow> w ds a' b'
              | Raise e \<Rightarrow> Some (Raise e))
         | Raise e \<Rightarrow> Some (Raise e))
      else Some (Return (a, b))) = Some r"
  show "\<not> (ds = [d_loop] \<and> a = d_loop \<and> b = d_loop)"
  proof
    assume h: "ds = [d_loop] \<and> a = d_loop \<and> b = d_loop"
    have k: "d_kind d_loop \<noteq> ''member''" by (simp add: d_loop_def mk_deref_def)
    have f: "follow_offsetref [d_loop] d_loop = Return d_loop"
      by (simp add: follow_offsetref_def py_nth_def d_loop_def mk_deref_def)
    from eq h k f have "w [d_loop] d_loop d_loop = Some r" by simp
    from IH [OF this] show False by simp
  qed
qed

lemma walk_to_members_d_loop: "walk_to_members [d_loop] d_loop d_loop = None"
proof (cases "walk_to_members [d_loop] d_loop d_loop")
  case None
  then show ?thesis .
next
  case (Some r)
  from walk_to_members_d_loop_aux [OF Some] show ?thesis by simp
qed

lemma db_loop_facts:
  "funcs_entry_by_id db_loop 71 = Return f_loop
   \<and> call_indexes_of (PointerBoundsPass_init db_loop) f_loop = [0]
   \<and> models_of_call (PointerBoundsPass_init db_loop) f_loop 0 = [(2, 0), (2, 1)]
   \<and> argument_deref f_loop 0 2 = Return d_loop
   \<and> argument_deref f_loop 0 0 = Return d_loop
   \<and> first_offsetref_kind d_loop = Return ''member''
   \<and> f_derefs f_loop = [d_loop]"
  by code_simp

theorem analyze_bounds_loops_counterexample:
  "analyze_bounds (PointerBoundsPass_init db_loop) db_loop 71 1 4 = None"
proof -
  have m: "analyze_model db_loop f_loop 0 (2, 0) = None"
    using db_loop_facts by (simp add: analyze_model_def walk_to_members_d_loop)
  have "analyze_calls (PointerBoundsPass_init db_loop) db_loop f_loop [0] [] = None"
    using db_loop_facts m by simp
  with db_loop_facts show ?thesis
    by (simp add: analyze_bounds.simps [of _ db_loop 71])
qed

end
